theory Spec2Isabelle
  imports Complex_Main "HOL-Library.Word"
begin

section \<open>Conventions of the embedding\<close>

text \<open>
  The development embeds the search core of Tide (\<^verbatim>\<open>TideSearchApplication.cpp\<close> and
  \<^verbatim>\<open>tide/spectrum_preprocess2.cc\<close>).

  \<^item> A C++ \<^verbatim>\<open>double\<close> is a \<^typ>\<open>real\<close>: arithmetic is exact, rounding and overflow of
    the binary format are not modelled. Where the code takes \<^verbatim>\<open>log\<close> and \<^verbatim>\<open>exp\<close> the IEEE
    special values (infinities, NaN) are modelled explicitly by the type \<open>double\<close> below.
  \<^item> A C++ \<^verbatim>\<open>int\<close> that indexes or counts is an \<^typ>\<open>int\<close> or a \<^typ>\<open>nat\<close>; the
    \<^verbatim>\<open>int\<close> cells of the peak cache are \<^typ>\<open>32 word\<close>, whose addition wraps.
  \<^item> An array reached through a raw pointer (\<^verbatim>\<open>double* observed\<close>, \<^verbatim>\<open>int* cache_\<close>) is a
    function from the index to the cell; the code itself knows no bound for it.
  \<^item> \<^verbatim>\<open>carp(CARP_FATAL, ...)\<close> ends the process: it is the \<open>Inl\<close> branch of a sum. So is
    an operation that C++ leaves undefined (a read before an array, the conversion of a
    \<^verbatim>\<open>double\<close> outside the range of \<^verbatim>\<open>int\<close>): the model stops there with
    \<open>UNDEFINED_BEHAVIOUR\<close>.
\<close>

datatype error =
    FATAL string
  | UNDEFINED_BEHAVIOUR string

text \<open>A \<^verbatim>\<open>for\<close> loop over the indices \<open>is\<close> whose body can fail.\<close>

fun for_loop :: "'i list \<Rightarrow> ('i \<Rightarrow> 's \<Rightarrow> error + 's) \<Rightarrow> 's \<Rightarrow> error + 's" where
  "for_loop [] body s = Inr s"
| "for_loop (i # is) body s =
     (case body i s of Inl e \<Rightarrow> Inl e | Inr s' \<Rightarrow> for_loop is body s')"

section \<open>Spectra and the declarations of absent headers\<close>

text \<open>A spectrum as the code reads it: \<^verbatim>\<open>M_Z(i)\<close> and \<^verbatim>\<open>Intensity(i)\<close> are the two
  components of \<open>Peaks ! i\<close>, \<^verbatim>\<open>Size()\<close> is the length.\<close>

record Spectrum =
  PrecursorMZ :: real
  Peaks :: "(real \<times> real) list"
  MaxCharge :: int
  SpectrumNumber :: int

text \<open>
  Constants, macros and helper methods that the two source files use and that are
  declared in headers outside the sources at hand (\<^verbatim>\<open>mass_constants.h\<close>, \<^verbatim>\<open>max_mz.h\<close>,
  \<^verbatim>\<open>spectrum_collection.h\<close>, \<^verbatim>\<open>spectrum_preprocess.h\<close>). They are parameters of the model:
  every theorem below holds for each value of them that satisfies its stated hypotheses.
  \<open>InitBin\<close> gives the pair (\<^verbatim>\<open>BackgroundBinEnd()\<close>, \<^verbatim>\<open>CacheBinEnd()\<close>) of \<^verbatim>\<open>max_mz_\<close> after
  \<^verbatim>\<open>max_mz_.InitBin(mz)\<close>; the two \<open>Global\<close> fields are those of \<^verbatim>\<open>MaxBin::Global()\<close>.
  Bins are never negative and are natural numbers.
\<close>

record headers =
  MASS_PROTON :: real
  ISOTOPE_SPACING :: real
  BIN_WIDTH :: real
  MAX_XCORR_OFFSET :: nat
  NUM_SPECTRUM_REGIONS :: nat
  BIN_NH3 :: nat
  BIN_H2O :: nat
  mass2bin :: "real \<Rightarrow> nat"
  bin2mass :: "int \<Rightarrow> real"
  mono_h :: real
  mono_oh :: real
  MaxPeakInRange :: "Spectrum \<Rightarrow> real \<Rightarrow> real \<Rightarrow> real"
  InitBin :: "real \<Rightarrow> nat \<times> nat"
  GlobalBackgroundBinEnd :: nat
  GlobalCacheBinEnd :: nat

text \<open>The parameters read through \<^verbatim>\<open>Params::Get...\<close>.\<close>

record Params =
  skip_preprocessing :: bool
  remove_precursor_peak :: bool
  remove_precursor_tolerance :: real
  deisotope :: real
  exact_p_value :: bool

section \<open>Precursor windows: \<^verbatim>\<open>TideSearchApplication::computeWindow\<close>\<close>

datatype WINDOW_TYPE_T = WINDOW_INVALID | WINDOW_MASS | WINDOW_MZ | WINDOW_PPM

text \<open>\<^verbatim>\<open>SpectrumCollection::SpecCharge\<close>.\<close>

record SpecCharge =
  sc_neutral_mass :: real
  sc_charge :: int
  sc_spectrum :: Spectrum

text \<open>The four out-parameters of \<^verbatim>\<open>computeWindow\<close>.\<close>

record window =
  out_min :: "real list"
  out_max :: "real list"
  min_range :: real
  max_range :: real

text \<open>The vectors \<open>out_min0\<close> and \<open>out_max0\<close> are the contents of \<^verbatim>\<open>*out_min\<close> and
  \<^verbatim>\<open>*out_max\<close> on entry (the code only ever \<^verbatim>\<open>push_back\<close>s). \<^verbatim>\<open>front()\<close> and \<^verbatim>\<open>back()\<close>
  of an empty vector are undefined.\<close>

definition computeWindow ::
  "headers \<Rightarrow> SpecCharge \<Rightarrow> WINDOW_TYPE_T \<Rightarrow> real \<Rightarrow> int \<Rightarrow> int list
     \<Rightarrow> real list \<Rightarrow> real list \<Rightarrow> error + window" where
  "computeWindow h sc window_type precursor_window max_charge
       negative_isotope_errors out_min0 out_max0 =
    (let unit_dalton = BIN_WIDTH h in
     case window_type of
       WINDOW_MASS \<Rightarrow>
         if negative_isotope_errors = [] then Inl (UNDEFINED_BEHAVIOUR ''front of empty vector'')
         else Inr \<lparr>
           out_min = out_min0 @ map (\<lambda>ie. sc_neutral_mass sc + (real_of_int ie * unit_dalton) - precursor_window)
                                   negative_isotope_errors,
           out_max = out_max0 @ map (\<lambda>ie. sc_neutral_mass sc + (real_of_int ie * unit_dalton) + precursor_window)
                                   negative_isotope_errors,
           min_range = (sc_neutral_mass sc + (real_of_int (hd negative_isotope_errors) * unit_dalton)) - precursor_window,
           max_range = (sc_neutral_mass sc + (real_of_int (last negative_isotope_errors) * unit_dalton)) + precursor_window \<rparr>
     | WINDOW_MZ \<Rightarrow>
         (let mz_minus_proton = PrecursorMZ (sc_spectrum sc) - MASS_PROTON h in
          if negative_isotope_errors = [] then Inl (UNDEFINED_BEHAVIOUR ''front of empty vector'')
          else Inr \<lparr>
            out_min = out_min0 @ map (\<lambda>ie. (mz_minus_proton - precursor_window) * real_of_int (sc_charge sc)
                                            + (real_of_int ie * unit_dalton)) negative_isotope_errors,
            out_max = out_max0 @ map (\<lambda>ie. (mz_minus_proton + precursor_window) * real_of_int (sc_charge sc)
                                            + (real_of_int ie * unit_dalton)) negative_isotope_errors,
            min_range = (mz_minus_proton * real_of_int (sc_charge sc)
                           + (real_of_int (hd negative_isotope_errors) * unit_dalton))
                        - precursor_window * real_of_int max_charge,
            max_range = (mz_minus_proton * real_of_int (sc_charge sc)
                           + (real_of_int (last negative_isotope_errors) * unit_dalton))
                        + precursor_window * real_of_int max_charge \<rparr>)
     | WINDOW_PPM \<Rightarrow>
         (let tiny_precursor = precursor_window * (1 / 1000000) in
          if negative_isotope_errors = [] then Inl (UNDEFINED_BEHAVIOUR ''front of empty vector'')
          else Inr \<lparr>
            out_min = out_min0 @ map (\<lambda>ie. (sc_neutral_mass sc + (real_of_int ie * unit_dalton))
                                            * (1 - tiny_precursor)) negative_isotope_errors,
            out_max = out_max0 @ map (\<lambda>ie. (sc_neutral_mass sc + (real_of_int ie * unit_dalton))
                                            * (1 + tiny_precursor)) negative_isotope_errors,
            min_range = (sc_neutral_mass sc + (real_of_int (hd negative_isotope_errors) * unit_dalton))
                        * (1 - tiny_precursor),
            max_range = (sc_neutral_mass sc + (real_of_int (last negative_isotope_errors) * unit_dalton))
                        * (1 + tiny_precursor) \<rparr>)
     | WINDOW_INVALID \<Rightarrow> Inl (FATAL ''Invalid window type''))"

section \<open>Background subtraction: \<^verbatim>\<open>SubtractBackground\<close>\<close>

text \<open>The first loop fills \<^verbatim>\<open>partial_sums[0..end-1]\<close> with the running total; the vector
  has \<open>end + 1\<close> cells, created as zeros; the last cell receives the total.\<close>

definition partial_sums_step :: "(nat \<Rightarrow> real) \<Rightarrow> nat \<Rightarrow> real \<times> (nat \<Rightarrow> real) \<Rightarrow> real \<times> (nat \<Rightarrow> real)" where
  "partial_sums_step observed i st =
     (let total = fst st + observed i in (total, (snd st)(i := total)))"

definition partial_sums :: "(nat \<Rightarrow> real) \<Rightarrow> nat \<Rightarrow> nat \<Rightarrow> real" where
  "partial_sums observed end =
     (let st = fold (partial_sums_step observed) [0..<end] (0, \<lambda>_. 0)
      in (snd st)(end := fst st))"

definition subtract_step :: "headers \<Rightarrow> (nat \<Rightarrow> real) \<Rightarrow> nat \<Rightarrow> nat \<Rightarrow> (nat \<Rightarrow> real) \<Rightarrow> (nat \<Rightarrow> real)" where
  "subtract_step h psums end i observed =
     (let multiplier = 1 / real (MAX_XCORR_OFFSET h * 2);
          right_index = min end (i + MAX_XCORR_OFFSET h);
          left_index = nat (max 0 (int i - int (MAX_XCORR_OFFSET h) - 1))
      in observed(i := observed i
                         - multiplier * (psums right_index - psums left_index - observed i)))"

definition SubtractBackground :: "headers \<Rightarrow> (nat \<Rightarrow> real) \<Rightarrow> nat \<Rightarrow> (nat \<Rightarrow> real)" where
  "SubtractBackground h observed end =
     fold (subtract_step h (partial_sums observed end) end) [0..<end] observed"

section \<open>The observed peak set: \<^verbatim>\<open>ObservedPeakSet::PreprocessSpectrum\<close>\<close>

text \<open>The four counters that \<^verbatim>\<open>search\<close> passes by pointer.\<close>

record counters =
  num_range_skipped :: int
  num_precursors_skipped :: int
  num_isotopes_skipped :: int
  num_retained :: int

text \<open>The members of \<^verbatim>\<open>ObservedPeakSet\<close> that preprocessing reads and writes; \<open>bbe\<close> and
  \<open>cbe\<close> are \<^verbatim>\<open>max_mz_.BackgroundBinEnd()\<close> and \<^verbatim>\<open>max_mz_.CacheBinEnd()\<close>; a field \<open>ops_x\<close> is
  the member \<^verbatim>\<open>x_\<close> of the class (a name cannot end in an underscore here).\<close>

record ObservedPeakSet =
  ops_peaks :: "nat \<Rightarrow> real"
  ops_cache :: "nat \<Rightarrow> 32 word"
  bbe :: nat
  cbe :: nat
  ops_cache_end :: nat
  ops_NL :: bool
  ops_FP :: bool

subsection \<open>Filling the bins\<close>

text \<open>The loop of the \<^verbatim>\<open>skip-preprocessing\<close> branch, one peak per step, in the order of the
  spectrum.\<close>

definition skip_step :: "headers \<Rightarrow> real \<Rightarrow> real \<times> real \<Rightarrow> (nat \<Rightarrow> real) \<Rightarrow> (nat \<Rightarrow> real)" where
  "skip_step h experimental_mass_cut_off pk peaks =
     (let peak_location = fst pk in
      if peak_location \<ge> experimental_mass_cut_off then peaks
      else
        let mz = mass2bin h peak_location;
            intensity = snd pk
        in if intensity > peaks mz then peaks(mz := intensity) else peaks)"

definition skip_fill :: "headers \<Rightarrow> real \<Rightarrow> (real \<times> real) list \<Rightarrow> (nat \<Rightarrow> real) \<Rightarrow> (nat \<Rightarrow> real)" where
  "skip_fill h experimental_mass_cut_off pks peaks =
     fold (skip_step h experimental_mass_cut_off) pks peaks"

text \<open>The state of the loop of the other branch: the bins, the two running maxima and the
  counters.\<close>

record fill_state =
  fs_peaks :: "nat \<Rightarrow> real"
  largest_mz :: nat
  highest_intensity :: real
  fs_counters :: counters

text \<open>The deisotoping test of one peak: the loop over \<^verbatim>\<open>fragCharge\<close> from 1 to
  \<^verbatim>\<open>max_charge - 1\<close> stops at the first charge whose isotopic partner is more intense.\<close>

definition is_isotopic_peak :: "headers \<Rightarrow> Params \<Rightarrow> Spectrum \<Rightarrow> real \<Rightarrow> real \<Rightarrow> bool" where
  "is_isotopic_peak h p spec peak_location intensity =
     (deisotope p \<noteq> 0 \<and>
      list_ex (\<lambda>fragCharge.
          let isotopic_peak = peak_location - (ISOTOPE_SPACING h / real_of_int fragCharge);
              ppm_difference = (peak_location * deisotope p) / 1000000;
              isotopic_intensity = MaxPeakInRange h spec (isotopic_peak - ppm_difference)
                                                         (isotopic_peak + ppm_difference)
          in intensity < isotopic_intensity)
        [1 .. MaxCharge spec - 1])"

text \<open>One step of the loop. \<^verbatim>\<open>sqrt\<close> of a negative intensity is NaN in the code, and every
  comparison with NaN is false: the two comparisons after the square root carry the guard
  \<open>0 \<le> intensity\<close>.\<close>

definition fill_step :: "headers \<Rightarrow> Params \<Rightarrow> Spectrum \<Rightarrow> real \<Rightarrow> real \<times> real \<Rightarrow> fill_state \<Rightarrow> fill_state" where
  "fill_step h p spec experimental_mass_cut_off pk s =
     (let peak_location = fst pk;
          c = fs_counters s in
      if peak_location \<ge> experimental_mass_cut_off
      then s\<lparr>fs_counters := c\<lparr>num_range_skipped := num_range_skipped c + 1\<rparr>\<rparr>
      else if remove_precursor_peak p
              \<and> \<bar>peak_location - PrecursorMZ spec\<bar> \<le> remove_precursor_tolerance p
      then s\<lparr>fs_counters := c\<lparr>num_precursors_skipped := num_precursors_skipped c + 1\<rparr>\<rparr>
      else
        let intensity = snd pk in
        if is_isotopic_peak h p spec peak_location intensity
        then s\<lparr>fs_counters := c\<lparr>num_isotopes_skipped := num_isotopes_skipped c + 1\<rparr>\<rparr>
        else
          let mz = mass2bin h peak_location;
              root = sqrt intensity
          in \<lparr> fs_peaks = (if 0 \<le> intensity \<and> root > fs_peaks s mz
                            then (fs_peaks s)(mz := root) else fs_peaks s),
                largest_mz = (if mz > largest_mz s \<and> intensity > 0 then mz else largest_mz s),
                highest_intensity = (if 0 \<le> intensity \<and> root > highest_intensity s
                                     then root else highest_intensity s),
                fs_counters = c\<lparr>num_retained := num_retained c + 1\<rparr> \<rparr>)"

text \<open>The loop runs from the last peak down to the first.\<close>

definition fill :: "headers \<Rightarrow> Params \<Rightarrow> Spectrum \<Rightarrow> real \<Rightarrow> (real \<times> real) list \<Rightarrow> fill_state \<Rightarrow> fill_state" where
  "fill h p spec experimental_mass_cut_off pks s =
     fold (fill_step h p spec experimental_mass_cut_off) (rev pks) s"

subsection \<open>Normalising each region\<close>

text \<open>The first inner loop of a region: zero what is at most the cutoff, and find the
  largest survivor. The state is (\<^verbatim>\<open>highest_intensity\<close>, \<^verbatim>\<open>peaks_\<close>).\<close>

definition region_scan_step :: "real \<Rightarrow> nat \<Rightarrow> nat \<Rightarrow> nat \<Rightarrow> real \<times> (nat \<Rightarrow> real) \<Rightarrow> real \<times> (nat \<Rightarrow> real)" where
  "region_scan_step intensity_cutoff region_size i j st =
     (let index = i * region_size + j;
          peaks = (if snd st index \<le> intensity_cutoff then (snd st)(index := 0) else snd st)
      in if peaks index > fst st then (peaks index, peaks) else (fst st, peaks))"

text \<open>The second inner loop: rescale what is not zero.\<close>

definition region_scale_step :: "real \<Rightarrow> nat \<Rightarrow> nat \<Rightarrow> nat \<Rightarrow> (nat \<Rightarrow> real) \<Rightarrow> (nat \<Rightarrow> real)" where
  "region_scale_step normalizer region_size i j peaks =
     (let index = i * region_size + j
      in if peaks index \<noteq> 0 then peaks(index := peaks index * normalizer) else peaks)"

definition region_step :: "real \<Rightarrow> nat \<Rightarrow> nat \<Rightarrow> (nat \<Rightarrow> real) \<Rightarrow> (nat \<Rightarrow> real)" where
  "region_step intensity_cutoff region_size i peaks =
     (let st = fold (region_scan_step intensity_cutoff region_size i) [0..<region_size] (0, peaks);
          highest = fst st
      in if highest = 0 then snd st
         else
           let normalizer = 50 / highest
           in fold (region_scale_step normalizer region_size i) [0..<region_size] (snd st))"

text \<open>The region loop of \<^verbatim>\<open>PreprocessSpectrum\<close> (in Crux: \<^verbatim>\<open>NormalizeEachRegion\<close>), from the
  global maximum \<open>highest\<close> and the largest occupied bin \<open>largest\<close> that the filling loop
  left.\<close>

definition NormalizeEachRegion :: "headers \<Rightarrow> real \<Rightarrow> nat \<Rightarrow> (nat \<Rightarrow> real) \<Rightarrow> (nat \<Rightarrow> real)" where
  "NormalizeEachRegion h highest largest peaks =
     (let intensity_cutoff = highest * (5 / 100);
          region_size = largest div NUM_SPECTRUM_REGIONS h + 1
      in fold (region_step intensity_cutoff region_size) [0..<NUM_SPECTRUM_REGIONS h] peaks)"

subsection \<open>The integer cache\<close>

text \<open>Modelled from the spec: the peak types. The enumeration \<^verbatim>\<open>TheoreticalPeakType\<close> and
  the accessor \<^verbatim>\<open>Peak(type, index)\<close> are declared in an absent header; the spec names the
  transformations (base value, loss-adjusted, flanking, primary, combined b/y variants), and
  the zeroing loop of \<^verbatim>\<open>ComputeCache\<close> shows the layout: the cells of one bin are
  \<^verbatim>\<open>NUM_PEAK_TYPES\<close> consecutive cells of \<^verbatim>\<open>cache_\<close>.\<close>

datatype TheoreticalPeakType =
    PeakMain | LossPeak | FlankingPeak | PrimaryPeak
  | PeakCombinedB1 | PeakCombinedY1 | PeakCombinedB2 | PeakCombinedY2

fun type_code :: "TheoreticalPeakType \<Rightarrow> nat" where
  "type_code PeakMain = 0"
| "type_code LossPeak = 1"
| "type_code FlankingPeak = 2"
| "type_code PrimaryPeak = 3"
| "type_code PeakCombinedB1 = 4"
| "type_code PeakCombinedY1 = 5"
| "type_code PeakCombinedB2 = 6"
| "type_code PeakCombinedY2 = 7"

definition NUM_PEAK_TYPES :: nat where
  "NUM_PEAK_TYPES = 8"

definition Peak_index :: "TheoreticalPeakType \<Rightarrow> nat \<Rightarrow> nat" where
  "Peak_index t i = i * NUM_PEAK_TYPES + type_code t"

definition Peak :: "(nat \<Rightarrow> 32 word) \<Rightarrow> TheoreticalPeakType \<Rightarrow> nat \<Rightarrow> 32 word" where
  "Peak cache t i = cache (Peak_index t i)"

definition set_Peak :: "TheoreticalPeakType \<Rightarrow> nat \<Rightarrow> 32 word \<Rightarrow> (nat \<Rightarrow> 32 word) \<Rightarrow> (nat \<Rightarrow> 32 word)" where
  "set_Peak t i v cache = cache(Peak_index t i := v)"

text \<open>\<^verbatim>\<open>int(x)\<close> truncates towards zero: it is the floor of a positive and the ceiling of a
  negative number. The conversion is undefined when the truncated value is not a value of
  the 32-bit \<^verbatim>\<open>int\<close>.\<close>

definition round_to_int :: "real \<Rightarrow> error + int" where
  "round_to_int x =
     (let r = (if x \<ge> 0 then \<lfloor>x + 1/2\<rfloor> else \<lceil>x - 1/2\<rceil>)
      in if - 2147483648 \<le> r \<and> r \<le> 2147483647 then Inr r
         else Inl (UNDEFINED_BEHAVIOUR ''double to int out of range''))"

text \<open>The loop of \<^verbatim>\<open>MakeInteger\<close>, one bin below the background end per step; the first
  undefined conversion ends it.\<close>

definition MakeInteger_step :: "(nat \<Rightarrow> real) \<Rightarrow> nat \<Rightarrow> (nat \<Rightarrow> 32 word) \<Rightarrow> error + (nat \<Rightarrow> 32 word)" where
  "MakeInteger_step peaks i cache =
     (case round_to_int (peaks i * 50000) of
        Inl e \<Rightarrow> Inl e
      | Inr r \<Rightarrow> Inr (set_Peak PeakMain i (word_of_int r) cache))"

definition MakeInteger :: "ObservedPeakSet \<Rightarrow> error + ObservedPeakSet" where
  "MakeInteger obs =
     (case for_loop [0..<bbe obs] (MakeInteger_step (ops_peaks obs)) (ops_cache obs) of
        Inl e \<Rightarrow> Inl e
      | Inr cache \<Rightarrow> Inr (obs\<lparr>ops_cache := cache\<rparr>))"

definition multiples_step :: "nat \<Rightarrow> (nat \<Rightarrow> 32 word) \<Rightarrow> (nat \<Rightarrow> 32 word)" where
  "multiples_step i cache =
     (let x = Peak cache PeakMain i;
          y = x + x;
          cache1 = set_Peak LossPeak i y cache;
          z = y + y + x;
          cache2 = set_Peak FlankingPeak i z cache1
      in set_Peak PrimaryPeak i (z + z) cache2)"

definition combine_step :: "headers \<Rightarrow> ObservedPeakSet \<Rightarrow> nat \<Rightarrow> (nat \<Rightarrow> 32 word) \<Rightarrow> (nat \<Rightarrow> 32 word)" where
  "combine_step h obs i cache =
     (let flanks0 = Peak cache PrimaryPeak i;
          flanks1 = (if ops_FP obs \<and> i > 0 then flanks0 + Peak cache FlankingPeak (i - 1) else flanks0);
          flanks = (if ops_FP obs \<and> int i < int (cbe obs) - 1
                    then flanks1 + Peak cache FlankingPeak (i + 1) else flanks1);
          Y1a = (if ops_NL obs \<and> i > BIN_NH3 h then flanks + Peak cache LossPeak (i - BIN_NH3 h) else flanks);
          Y1 = (if ops_NL obs \<and> i > BIN_H2O h then Y1a + Peak cache LossPeak (i - BIN_H2O h) else Y1a);
          cache1 = set_Peak PeakCombinedY1 i Y1 cache;
          B1 = Y1;
          cache2 = set_Peak PeakCombinedB1 i B1 cache1;
          cache3 = set_Peak PeakCombinedY2 i flanks cache2
      in set_Peak PeakCombinedB2 i flanks cache3)"

definition ComputeCache :: "headers \<Rightarrow> ObservedPeakSet \<Rightarrow> ObservedPeakSet" where
  "ComputeCache h obs =
     (let cache1 = fold multiples_step [0..<bbe obs] (ops_cache obs);
          cache2 = fold (\<lambda>i cache. cache(i := 0)) [bbe obs * NUM_PEAK_TYPES ..< ops_cache_end obs] cache1;
          cache3 = fold (combine_step h obs) [0..<cbe obs] cache2
      in obs\<lparr>ops_cache := cache3\<rparr>)"

text \<open>The reference dot product: \<open>theoretical\<close> is the list of the codes
  (\<^verbatim>\<open>i->Code()\<close>) of the theoretical peaks, in the order of the array.\<close>

definition DotProd :: "(nat \<Rightarrow> 32 word) \<Rightarrow> nat list \<Rightarrow> 32 word" where
  "DotProd cache theoretical = fold (\<lambda>code total. total + cache code) theoretical 0"

subsection \<open>The whole of \<^verbatim>\<open>PreprocessSpectrum\<close>\<close>

definition experimental_mass_cut_off :: "headers \<Rightarrow> Spectrum \<Rightarrow> int \<Rightarrow> real" where
  "experimental_mass_cut_off h spec charge =
     (PrecursorMZ spec - MASS_PROTON h) * real_of_int charge + MASS_PROTON h + 50"

text \<open>\<^verbatim>\<open>spectrum.M_Z(spectrum.Size()-1)\<close> reads before the array when the spectrum has no
  peak. \<^verbatim>\<open>memset\<close> clears the first \<^verbatim>\<open>MaxBin::Global().BackgroundBinEnd()\<close> bins. The
  undefined conversion of \<^verbatim>\<open>MakeInteger\<close> ends the call.\<close>

definition PreprocessSpectrum ::
  "headers \<Rightarrow> Params \<Rightarrow> Spectrum \<Rightarrow> int \<Rightarrow> counters \<Rightarrow> ObservedPeakSet
     \<Rightarrow> error + (ObservedPeakSet \<times> counters)" where
  "PreprocessSpectrum h p spec charge cnt obs =
     (if Peaks spec = [] then Inl (UNDEFINED_BEHAVIOUR ''M_Z(-1)'')
      else
        let cut_off = experimental_mass_cut_off h spec charge;
            max_peak_mz = fst (last (Peaks spec));
            ends = InitBin h (min cut_off max_peak_mz);
            obs1 = obs\<lparr> bbe := fst ends, cbe := snd ends,
                        ops_cache_end := GlobalCacheBinEnd h * NUM_PEAK_TYPES,
                        ops_peaks := (\<lambda>i. if i < GlobalBackgroundBinEnd h then 0 else ops_peaks obs i) \<rparr>;
            filled =
              (if skip_preprocessing p
               then (skip_fill h cut_off (Peaks spec) (ops_peaks obs1), cnt)
               else
                 let s = fill h p spec cut_off (Peaks spec)
                           \<lparr> fs_peaks = ops_peaks obs1, largest_mz = 0, highest_intensity = 0,
                             fs_counters = cnt \<rparr>
                 in (NormalizeEachRegion h (highest_intensity s) (largest_mz s) (fs_peaks s),
                     fs_counters s));
            obs2 = obs1\<lparr> ops_peaks := SubtractBackground h (fst filled) (bbe obs1) \<rparr>
        in case MakeInteger obs2 of
             Inl e \<Rightarrow> Inl e
           | Inr obs3 \<Rightarrow> Inr (ComputeCache h obs3, snd filled))"

text \<open>The four cache cells of a bin that combine a \<open>b\<close> or \<open>y\<close> ion with its flanks and
  losses.\<close>

definition combined :: "TheoreticalPeakType \<Rightarrow> bool" where
  "combined t = (t = PeakCombinedB1 \<or> t = PeakCombinedY1 \<or> t = PeakCombinedB2 \<or> t = PeakCombinedY2)"

section \<open>The isotope errors: \<^verbatim>\<open>TideSearchApplication::getNegativeIsotopeErrors\<close>\<close>

text \<open>
  Modelled from the spec: \<^verbatim>\<open>StringUtils::Split<int>\<close> is declared in an absent header. The
  spec gives the isotope errors as integers separated by commas (\<open>"1,2"\<close> yields the values 1
  and 2): the string is cut at every separator and each piece is read as a decimal
  number, with an optional minus sign, up to its first character that is not a digit (a
  piece without a digit reads as 0).
\<close>

fun split_on :: "char \<Rightarrow> string \<Rightarrow> string list" where
  "split_on d [] = [[]]"
| "split_on d (c # cs) =
     (if c = d then [] # split_on d cs
      else (case split_on d cs of [] \<Rightarrow> [[c]] | t # ts \<Rightarrow> (c # t) # ts))"

definition is_digit :: "char \<Rightarrow> bool" where
  "is_digit c = ((48::nat) \<le> of_char c \<and> of_char c \<le> (57::nat))"

fun read_digits :: "string \<Rightarrow> int \<Rightarrow> int" where
  "read_digits [] n = n"
| "read_digits (c # cs) n =
     (if is_digit c then read_digits cs (10 * n + (of_char c - 48)) else n)"

definition FromString_int :: "string \<Rightarrow> int" where
  "FromString_int s =
     (case s of
        [] \<Rightarrow> 0
      | c # cs \<Rightarrow> if c = CHR ''-'' then - read_digits cs 0 else read_digits s 0)"

definition Split_int :: "string \<Rightarrow> char \<Rightarrow> int list" where
  "Split_int s d = map FromString_int (split_on d s)"

text \<open>The loop over the characters: a comma that ends the string or precedes a comma is
  fatal.\<close>

fun misplaced_comma :: "string \<Rightarrow> bool" where
  "misplaced_comma [] = False"
| "misplaced_comma (c # cs) =
     ((c = CHR '','' \<and> (cs = [] \<or> hd cs = CHR '','')) \<or> misplaced_comma cs)"

text \<open>The loop over the parsed values; \<open>neg\<close> is \<^verbatim>\<open>negative_isotope_errors\<close>. \<^verbatim>\<open>carp\<close> with
  \<^verbatim>\<open>CARP_FATAL\<close> does not return, so nothing is pushed after it.\<close>

fun push_isotope_errors :: "int list \<Rightarrow> int list \<Rightarrow> error + int list" where
  "push_isotope_errors [] neg = Inr neg"
| "push_isotope_errors (i # rest) neg =
     (if i < 0 then Inl (FATAL ''Found a negative isotope error'')
      else if - i \<in> set neg
      then Inl (FATAL ''Found duplicate when parsing isotope_error parameter'')
      else push_isotope_errors rest (neg @ [- i]))"

text \<open>The function, for any implementation \<open>split\<close> of \<^verbatim>\<open>StringUtils::Split<int>(s, ',')\<close>.
  \<^verbatim>\<open>isotope_errors_string[0]\<close> of an empty string is the terminating zero character.\<close>

definition getNegativeIsotopeErrors_with :: "(string \<Rightarrow> int list) \<Rightarrow> string \<Rightarrow> error + int list" where
  "getNegativeIsotopeErrors_with split isotope_errors_string =
     (if isotope_errors_string \<noteq> [] \<and> hd isotope_errors_string = CHR '',''
      then Inl (FATAL ''Error in isotope_error parameter formatting'')
      else if misplaced_comma isotope_errors_string
      then Inl (FATAL ''Error in isotope_error parameter formatting'')
      else
        case (if isotope_errors_string \<noteq> []
              then push_isotope_errors (split isotope_errors_string) [0]
              else Inr [0]) of
          Inl e \<Rightarrow> Inl e
        | Inr negative_isotope_errors \<Rightarrow> Inr (sort negative_isotope_errors))"

definition getNegativeIsotopeErrors :: "string \<Rightarrow> error + int list" where
  "getNegativeIsotopeErrors = getNegativeIsotopeErrors_with (\<lambda>s. Split_int s (CHR '',''))"

section \<open>The search loop of one thread: \<^verbatim>\<open>TideSearchApplication::search\<close>\<close>

text \<open>
  The arguments that the loop reads from \<^verbatim>\<open>thread_data\<close> and from \<^verbatim>\<open>Params\<close>.
  \<open>spectrum_flag\<close> is the optional set of the keys \<open>scan_num * 10 + charge\<close> already
  assigned by a cascade search (\<open>None\<close> for the null pointer). The active peptide queue
  belongs to an absent component: \<open>nCandPeptide\<close> stands for the number of candidates that
  \<^verbatim>\<open>SetActiveRange\<close> returns for a pair.
\<close>

record search_args =
  thread_num :: nat
  num_threads :: nat
  spectrum_min_mz :: real
  spectrum_max_mz :: real
  min_scan :: int
  max_scan :: int
  min_peaks :: int
  search_charge :: int
  max_charge :: int
  window_type :: WINDOW_TYPE_T
  precursor_window :: real
  negative_isotope_errors :: "int list"
  exact_pval_search :: bool
  spectrum_flag :: "int set option"
  nCandPeptide :: "SpecCharge \<Rightarrow> nat"

text \<open>What the loop does with a pair that reaches an engine: the record of the pairs scored,
  with the engine that scored each. The scoring itself and the report belong to absent
  components.\<close>

datatype scored = XCorr SpecCharge | ExactPValue SpecCharge

text \<open>The two tests that make the loop \<^verbatim>\<open>continue\<close> before any work.\<close>

definition already_assigned :: "search_args \<Rightarrow> SpecCharge \<Rightarrow> bool" where
  "already_assigned a sc =
     (case spectrum_flag a of
        None \<Rightarrow> False
      | Some flags \<Rightarrow> SpectrumNumber (sc_spectrum sc) * 10 + sc_charge sc \<in> flags)"

definition filtered_out :: "search_args \<Rightarrow> SpecCharge \<Rightarrow> bool" where
  "filtered_out a sc =
     (let spec = sc_spectrum sc;
          precursor_mz = PrecursorMZ spec;
          charge = sc_charge sc;
          scan_num = SpectrumNumber spec
      in precursor_mz < spectrum_min_mz a \<or> precursor_mz > spectrum_max_mz a
         \<or> scan_num < min_scan a \<or> scan_num > max_scan a
         \<or> int (length (Peaks spec)) < min_peaks a
         \<or> (search_charge a \<noteq> 0 \<and> charge \<noteq> search_charge a) \<or> charge > max_charge a)"

text \<open>The body of the loop for one pair.\<close>

definition search_step :: "headers \<Rightarrow> Params \<Rightarrow> search_args \<Rightarrow> SpecCharge \<Rightarrow> scored list \<Rightarrow> error + scored list" where
  "search_step h p a sc done =
     (if already_assigned a sc then Inr done
      else if filtered_out a sc then Inr done
      else
        case computeWindow h sc (window_type a) (precursor_window a) (max_charge a)
               (negative_isotope_errors a) [] [] of
          Inl e \<Rightarrow> Inl e
        | Inr w \<Rightarrow>
            if \<not> exact_pval_search a
            then (if nCandPeptide a sc = 0 then Inr done else Inr (done @ [XCorr sc]))
            else if deisotope p \<noteq> 0
            then Inl (FATAL ''Deisotoping is not yet implemented in conjunction with exact p-values.'')
            else Inr (done @ [ExactPValue sc]))"

text \<open>The loop: from index \<open>thread_num\<close> in steps of \<open>num_threads\<close>. With zero threads it
  would not advance; the result \<open>None\<close> stands for a loop that does not return.\<close>

partial_function (option) search_loop ::
  "headers \<Rightarrow> Params \<Rightarrow> search_args \<Rightarrow> SpecCharge list \<Rightarrow> nat \<Rightarrow> scored list \<Rightarrow> (error + scored list) option" where
  "search_loop h p a spec_charges i done =
     (if i < length spec_charges
      then (case search_step h p a (spec_charges ! i) done of
              Inl e \<Rightarrow> Some (Inl e)
            | Inr done' \<Rightarrow> search_loop h p a spec_charges (i + num_threads a) done')
      else Some (Inr done))"

definition search :: "headers \<Rightarrow> Params \<Rightarrow> search_args \<Rightarrow> SpecCharge list \<Rightarrow> (error + scored list) option" where
  "search h p a spec_charges = search_loop h p a spec_charges (thread_num a) []"

section \<open>Batch scoring: \<^verbatim>\<open>TideSearchApplication::collectScoresCompiled\<close>\<close>

text \<open>
  A candidate peptide of the active queue, as far as scoring reads it: for a charge, the
  codes of its theoretical peaks (the \<^verbatim>\<open>TheoreticalPeakArr\<close> that \<^verbatim>\<open>DotProd\<close> walks).
\<close>

record Peptide =
  peak_codes :: "int \<Rightarrow> nat list"

text \<open>
  Modelled from the spec: the generated routines and the component that generates them
  (\<^verbatim>\<open>compiler.h\<close>, \<^verbatim>\<open>ActivePeptideQueue\<close>, \<^verbatim>\<open>Peptide::Prog\<close>) are absent; \<^verbatim>\<open>collectScoresCompiled\<close>
  only loads four registers and calls the first routine. By the spec each candidate is
  represented as a small routine; the routines of the queue run in one pass, read the
  shared cache, and each writes one (score, counter) pair into the preallocated results
  buffer, where the score is the sum of the cache values at the peptide's theoretical
  positions and the counter is the position from the back of the queue. By the comments of
  the source the counter register starts as the size of the queue and a routine "simply
  dumps the counter". So a routine is the list of the cache positions that it adds up;
  running it appends the pair of its sum and of the counter to the buffer and decrements the
  counter; the pass ends when the counter reaches zero, and running past the last routine
  is undefined.
\<close>

type_synonym routine = "nat list"

definition Prog :: "Peptide \<Rightarrow> int \<Rightarrow> routine" where
  "Prog peptide charge = peak_codes peptide charge"

definition run_routine :: "(nat \<Rightarrow> 32 word) \<Rightarrow> routine \<Rightarrow> nat \<times> (32 word \<times> nat) list \<Rightarrow> nat \<times> (32 word \<times> nat) list" where
  "run_routine cache r st =
     (let counter = fst st;
          results = snd st;
          score = foldl (\<lambda>eax code. eax + cache code) 0 r
      in (counter - 1, results @ [(score, counter)]))"

fun run_routines :: "(nat \<Rightarrow> 32 word) \<Rightarrow> routine list \<Rightarrow> nat \<times> (32 word \<times> nat) list \<Rightarrow> error + (32 word \<times> nat) list" where
  "run_routines cache [] st =
     (if fst st = 0 then Inr (snd st) else Inl (UNDEFINED_BEHAVIOUR ''call past the last routine''))"
| "run_routines cache (r # rs) st =
     (if fst st = 0 then Inr (snd st) else run_routines cache rs (run_routine cache r st))"

text \<open>The function of the source: nothing happens on an empty queue; otherwise the routines
  run from the next peptide of the queue with the counter \<open>queue_size\<close>, writing from the
  start of the buffer of \<open>match_arr\<close>, whose size is then set to \<open>queue_size\<close>.\<close>

definition collectScoresCompiled ::
  "Peptide list \<Rightarrow> (nat \<Rightarrow> 32 word) \<Rightarrow> (32 word \<times> nat) list \<Rightarrow> nat \<Rightarrow> int \<Rightarrow> error + (32 word \<times> nat) list" where
  "collectScoresCompiled active_peptide_queue cache match_arr queue_size charge =
     (if active_peptide_queue = [] then Inr match_arr
      else
        case run_routines cache (map (\<lambda>peptide. Prog peptide charge) active_peptide_queue)
               (queue_size, []) of
          Inl e \<Rightarrow> Inl e
        | Inr results \<Rightarrow> Inr (take queue_size results))"

section \<open>Exact p-values: \<^verbatim>\<open>TideSearchApplication::calcScoreCount\<close>\<close>

subsection \<open>The special values of a \<^verbatim>\<open>double\<close>\<close>

text \<open>
  The last loop of \<^verbatim>\<open>calcScoreCount\<close> computes \<^verbatim>\<open>exp(log(x) - log(total))\<close>, and \<^verbatim>\<open>log(0)\<close> is
  minus infinity: here the infinities and NaN of IEEE 754 are part of the model. \<^verbatim>\<open>log\<close> of a
  negative number is NaN; a difference with a NaN operand, and the difference of two equal
  infinities, is NaN; \<^verbatim>\<open>exp\<close> of minus infinity is 0; and every comparison with NaN is
  false. Finite values are exact reals (no rounding, no overflow).
\<close>

datatype double = Finite real | PosInf | NegInf | NaN

definition c_log :: "real \<Rightarrow> double" where
  "c_log x = (if x < 0 then NaN else if x = 0 then NegInf else Finite (ln x))"

fun d_minus :: "double \<Rightarrow> double \<Rightarrow> double" where
  "d_minus NaN _ = NaN"
| "d_minus _ NaN = NaN"
| "d_minus (Finite a) (Finite b) = Finite (a - b)"
| "d_minus (Finite a) PosInf = NegInf"
| "d_minus (Finite a) NegInf = PosInf"
| "d_minus PosInf PosInf = NaN"
| "d_minus PosInf _ = PosInf"
| "d_minus NegInf NegInf = NaN"
| "d_minus NegInf _ = NegInf"

fun c_exp :: "double \<Rightarrow> double" where
  "c_exp (Finite x) = Finite (exp x)"
| "c_exp PosInf = PosInf"
| "c_exp NegInf = Finite 0"
| "c_exp NaN = NaN"

text \<open>The comparison \<^verbatim>\<open>x >= y\<close> of two doubles.\<close>

fun d_ge :: "double \<Rightarrow> double \<Rightarrow> bool" where
  "d_ge NaN _ = False"
| "d_ge _ NaN = False"
| "d_ge (Finite a) (Finite b) = (a \<ge> b)"
| "d_ge PosInf _ = True"
| "d_ge _ NegInf = True"
| "d_ge (Finite a) PosInf = False"
| "d_ge NegInf _ = False"

subsection \<open>The dynamic-programming array\<close>

text \<open>\<^verbatim>\<open>dynProgArray\<close> is allocated by the function with \<open>nRow\<close> rows of \<open>nCol\<close> cells, all
  zero: an access outside these bounds is undefined, and each step of the model checks the
  cells that the code touches.\<close>

record dyn =
  rows :: int
  cols :: int
  cell :: "int \<Rightarrow> int \<Rightarrow> real"

definition in_range :: "dyn \<Rightarrow> int \<Rightarrow> int \<Rightarrow> bool" where
  "in_range A r c = (0 \<le> r \<and> r < rows A \<and> 0 \<le> c \<and> c < cols A)"

definition put :: "dyn \<Rightarrow> int \<Rightarrow> int \<Rightarrow> real \<Rightarrow> dyn" where
  "put A r c v = A\<lparr>cell := (cell A)(r := (cell A r)(c := v))\<rparr>"

text \<open>The step of the loop over the first (N-terminal) amino acid.\<close>

definition nterm_step ::
  "(int \<Rightarrow> int) \<Rightarrow> (nat \<Rightarrow> real) \<Rightarrow> (nat \<Rightarrow> int) \<Rightarrow> int \<Rightarrow> int \<Rightarrow> int \<Rightarrow> int \<Rightarrow> int
     \<Rightarrow> nat \<Rightarrow> dyn \<Rightarrow> error + dyn" where
  "nterm_step evidenceObs aaFreqN aaMass colStart initCountRow initCountCol maxDeltaMass colLast de A =
     (let ma = aaMass de;
          row = initCountRow + evidenceObs (ma + colStart);
          col = initCountCol + ma
      in if col \<le> maxDeltaMass + colLast
         then (if in_range A row col \<and> in_range A initCountRow initCountCol
               then Inr (put A row col (cell A row col + cell A initCountRow initCountCol * aaFreqN de))
               else Inl (UNDEFINED_BEHAVIOUR ''dynProgArray index''))
         else Inr A)"

text \<open>The innermost loop: the sum over the amino acids of the counts one residue back,
  from the starting value \<open>start\<close>; \<^verbatim>\<open>deltaMassCol[de]\<close> is \<open>col - aaMass de\<close>.\<close>

definition sum_back :: "nat \<Rightarrow> (nat \<Rightarrow> real) \<Rightarrow> (nat \<Rightarrow> int) \<Rightarrow> dyn \<Rightarrow> int \<Rightarrow> int \<Rightarrow> real \<Rightarrow> real" where
  "sum_back nDeltaMass aaFreq aaMass A evidenceRow col start =
     foldl (\<lambda>sumScore de. sumScore + cell A evidenceRow (col - aaMass de) * aaFreq de)
       start [0..<nDeltaMass]"

text \<open>The step of a loop over the rows, for an internal residue (\<open>keep\<close>: the sum starts
  from the cell itself) or for the last one (the sum starts from 0).\<close>

definition row_step ::
  "nat \<Rightarrow> (nat \<Rightarrow> real) \<Rightarrow> (nat \<Rightarrow> int) \<Rightarrow> bool \<Rightarrow> int \<Rightarrow> int \<Rightarrow> int \<Rightarrow> dyn \<Rightarrow> error + dyn" where
  "row_step nDeltaMass aaFreq aaMass keep evidence col row A =
     (let evidenceRow = row - evidence
      in if in_range A row col
            \<and> list_all (\<lambda>de. in_range A evidenceRow (col - aaMass de)) [0..<nDeltaMass]
         then Inr (put A row col
                     (sum_back nDeltaMass aaFreq aaMass A evidenceRow col
                        (if keep then cell A row col else 0)))
         else Inl (UNDEFINED_BEHAVIOUR ''dynProgArray index''))"

text \<open>The step of the loop over the mass bins of the internal residues.\<close>

definition column_step ::
  "(int \<Rightarrow> int) \<Rightarrow> nat \<Rightarrow> (nat \<Rightarrow> real) \<Rightarrow> (nat \<Rightarrow> int) \<Rightarrow> int \<Rightarrow> int \<Rightarrow> int \<Rightarrow> int \<Rightarrow> dyn \<Rightarrow> error + dyn" where
  "column_step evidenceObs nDeltaMass aaFreqI aaMass maxDeltaMass rowFirst rowLast ma A =
     (let col = maxDeltaMass + ma;
          evidence = evidenceObs ma
      in for_loop [rowFirst..rowLast] (row_step nDeltaMass aaFreqI aaMass True evidence col) A)"

text \<open>The function up to the copy of the last column into \<^verbatim>\<open>pValueScoreObs\<close>: the counts of
  the theoretical peptides per score row. \<^verbatim>\<open>aaMass[nDeltaMass - 1]\<close> needs an amino acid, and
  \<^verbatim>\<open>new\<close> with a negative size throws.\<close>

definition score_counts ::
  "headers \<Rightarrow> (int \<Rightarrow> int) \<Rightarrow> int \<Rightarrow> int \<Rightarrow> int \<Rightarrow> int \<Rightarrow> int \<Rightarrow> nat
     \<Rightarrow> (nat \<Rightarrow> real) \<Rightarrow> (nat \<Rightarrow> real) \<Rightarrow> (nat \<Rightarrow> real) \<Rightarrow> (nat \<Rightarrow> int) \<Rightarrow> error + real list" where
  "score_counts h evidenceObs pepMassInt maxEvidence minEvidence maxScore minScore nAA
       aaFreqN aaFreqI aaFreqC aaMass =
     (if nAA = 0 then Inl (UNDEFINED_BEHAVIOUR ''aaMass[-1]'')
      else
        let nDeltaMass = nAA;
            maxDeltaMass = aaMass (nDeltaMass - 1);
            bottomRowBuffer = maxEvidence + 1;
            topRowBuffer = - minEvidence;
            colBuffer = maxDeltaMass;
            colStart = int (mass2bin h (mono_h h));
            nRow = bottomRowBuffer - minScore + 1 + maxScore + topRowBuffer;
            nCol = colBuffer + pepMassInt;
            rowFirst = bottomRowBuffer;
            rowLast = rowFirst - minScore + maxScore;
            colFirst = colStart + int (mass2bin h (mono_h h));
            colLast = int (mass2bin h (bin2mass h pepMassInt - mono_oh h));
            initCountRow = bottomRowBuffer - minScore;
            initCountCol = maxDeltaMass + colStart;
            A0 = \<lparr> rows = nRow, cols = nCol, cell = (\<lambda>_ _. 0) \<rparr>
        in if nRow < 0 \<or> nCol < 0 then Inl (FATAL ''bad_array_new_length'')
           else if \<not> in_range A0 initCountRow initCountCol
           then Inl (UNDEFINED_BEHAVIOUR ''dynProgArray index'')
           else
             case for_loop [0..<nDeltaMass]
                    (nterm_step evidenceObs aaFreqN aaMass colStart initCountRow initCountCol
                       maxDeltaMass colLast)
                    (put A0 initCountRow initCountCol 1) of
               Inl e \<Rightarrow> Inl e
             | Inr A1 \<Rightarrow>
                 (case for_loop [colFirst..colLast - 1]
                         (column_step evidenceObs nDeltaMass aaFreqI aaMass maxDeltaMass rowFirst rowLast)
                         (put A1 initCountRow initCountCol 0) of
                    Inl e \<Rightarrow> Inl e
                  | Inr A2 \<Rightarrow>
                      (case for_loop [rowFirst..rowLast]
                              (row_step nDeltaMass aaFreqC aaMass False 0 (maxDeltaMass + colLast)) A2 of
                         Inl e \<Rightarrow> Inl e
                       | Inr A3 \<Rightarrow>
                           let colScoreCount = maxDeltaMass + colLast
                           in if 0 < nRow \<and> \<not> in_range A3 0 colScoreCount
                              then Inl (UNDEFINED_BEHAVIOUR ''dynProgArray index'')
                              else Inr (map (\<lambda>row. cell A3 row colScoreCount) [0..nRow - 1]))))"

subsection \<open>From the counts to the p-values\<close>

text \<open>The loop from \<open>nRow - 2\<close> down to 0 that turns the counts into the sums from the
  top.\<close>

fun cumulate :: "real list \<Rightarrow> real list" where
  "cumulate [] = []"
| "cumulate [x] = [x]"
| "cumulate (x # y # ys) = (let rest = cumulate (y # ys) in (x + hd rest) # rest)"

text \<open>The three loops after the array is filled: \<open>counts\<close> is the last column, as the first
  loop copies it into \<^verbatim>\<open>pValueScoreObs\<close>, summing it into \<^verbatim>\<open>totalCount\<close> and halving it into
  \<^verbatim>\<open>scoreCountBinAdjust\<close>.\<close>

definition p_values :: "real list \<Rightarrow> double list" where
  "p_values counts =
     (let totalCount = foldl (+) 0 counts;
          scoreCountBinAdjust = map (\<lambda>c. c / 2) counts;
          cumulative = cumulate counts;
          logTotalCount = c_log totalCount
      in map (\<lambda>(sum, adjust). c_exp (d_minus (c_log (sum - adjust)) logTotalCount))
           (zip cumulative scoreCountBinAdjust))"

text \<open>The whole function: the returned \<^verbatim>\<open>scoreOffsetObs\<close> and the contents of
  \<^verbatim>\<open>pValueScoreObs\<close>. The parameter \<^verbatim>\<open>numelEvidenceObs\<close> is not read by the code.\<close>

definition calcScoreCount ::
  "headers \<Rightarrow> int \<Rightarrow> (int \<Rightarrow> int) \<Rightarrow> int \<Rightarrow> int \<Rightarrow> int \<Rightarrow> int \<Rightarrow> int \<Rightarrow> nat
     \<Rightarrow> (nat \<Rightarrow> real) \<Rightarrow> (nat \<Rightarrow> real) \<Rightarrow> (nat \<Rightarrow> real) \<Rightarrow> (nat \<Rightarrow> int)
     \<Rightarrow> error + (int \<times> double list)" where
  "calcScoreCount h numelEvidenceObs evidenceObs pepMassInt maxEvidence minEvidence maxScore minScore
       nAA aaFreqN aaFreqI aaFreqC aaMass =
     (case score_counts h evidenceObs pepMassInt maxEvidence minEvidence maxScore minScore nAA
             aaFreqN aaFreqI aaFreqC aaMass of
        Inl e \<Rightarrow> Inl e
      | Inr counts \<Rightarrow>
          let bottomRowBuffer = maxEvidence + 1;
              scoreOffsetObs = bottomRowBuffer - minScore
          in Inr (scoreOffsetObs, p_values counts))"

section \<open>Notions used in the statements\<close>

text \<open>What a bin holds after the zeroing of a region: nothing when it is at most the
  cutoff. The largest such value of region \<open>i\<close> (0 when the region keeps nothing) is what
  the code has in \<^verbatim>\<open>highest_intensity\<close> after the first inner loop.\<close>

definition survivors :: "real \<Rightarrow> (nat \<Rightarrow> real) \<Rightarrow> nat \<Rightarrow> real" where
  "survivors intensity_cutoff peaks k = (if peaks k \<le> intensity_cutoff then 0 else peaks k)"

definition region_max :: "real \<Rightarrow> nat \<Rightarrow> nat \<Rightarrow> (nat \<Rightarrow> real) \<Rightarrow> real" where
  "region_max intensity_cutoff region_size i peaks =
     Max (insert 0 ((\<lambda>j. survivors intensity_cutoff peaks (i * region_size + j)) ` {..<region_size}))"

text \<open>The largest raw intensity that falls into bin \<open>k\<close> among the peaks below the cutoff,
  over what the bin held before.\<close>

definition bucket_max :: "headers \<Rightarrow> real \<Rightarrow> (real \<times> real) list \<Rightarrow> (nat \<Rightarrow> real) \<Rightarrow> nat \<Rightarrow> real" where
  "bucket_max h cut_off pks init k =
     Max (insert (init k) (snd ` {pk \<in> set pks. fst pk < cut_off \<and> mass2bin h (fst pk) = k}))"

text \<open>Adding \<open>n\<close> to the counter of the peaks skipped for their range.\<close>

definition bump_range :: "int \<Rightarrow> fill_state \<Rightarrow> fill_state" where
  "bump_range n s =
     s\<lparr>fs_counters := (fs_counters s)\<lparr>num_range_skipped := num_range_skipped (fs_counters s) + n\<rparr>\<rparr>"

text \<open>A pair that passes both tests of the loop, and the indices that the loop of a thread
  visits in a list of \<open>n\<close> pairs.\<close>

definition eligible :: "search_args \<Rightarrow> SpecCharge \<Rightarrow> bool" where
  "eligible a sc = (\<not> already_assigned a sc \<and> \<not> filtered_out a sc)"

definition visited :: "search_args \<Rightarrow> nat \<Rightarrow> nat \<Rightarrow> bool" where
  "visited a n i = (thread_num a \<le> i \<and> i < n \<and> (i - thread_num a) mod num_threads a = 0)"

text \<open>An array without a negative count.\<close>

definition nonneg_cells :: "dyn \<Rightarrow> bool" where
  "nonneg_cells A = (\<forall>r c. 0 \<le> cell A r c)"

text \<open>The values of the type \<^verbatim>\<open>int\<close>, and the integer that \<^verbatim>\<open>int(x + 0.5)\<close> (for \<open>x\<close> not
  negative) or \<^verbatim>\<open>int(x - 0.5)\<close> denotes where the conversion is defined.\<close>

definition fits_int :: "int \<Rightarrow> bool" where
  "fits_int k = (- 2147483648 \<le> k \<and> k \<le> 2147483647)"

definition round_half :: "real \<Rightarrow> int" where
  "round_half x = (if x \<ge> 0 then \<lfloor>x + 1/2\<rfloor> else \<lceil>x - 1/2\<rceil>)"

section \<open>Concrete inputs\<close>

text \<open>
  One admissible choice of the absent declarations, used to run the model on concrete
  inputs: bins of width 1 with offset 1 (so that \<^verbatim>\<open>mass2bin\<close> is the integer part and
  \<^verbatim>\<open>bin2mass\<close> the bin itself), the masses 1.0078 of hydrogen and 17.0027 of OH, the
  window half-width 75 and the 10 regions of the Tide distribution, a background range that
  ends one bin after the bin of the highest m/z and a cache range that ends one bin later.
  \<open>MaxPeakInRange\<close> is the largest intensity among the peaks whose m/z lies in the closed
  range (0 when there is none).
\<close>

definition example_headers :: headers where
  "example_headers =
     \<lparr> MASS_PROTON = 1, ISOTOPE_SPACING = 1, BIN_WIDTH = 1,
       MAX_XCORR_OFFSET = 75, NUM_SPECTRUM_REGIONS = 10, BIN_NH3 = 17, BIN_H2O = 18,
       mass2bin = (\<lambda>m. nat \<lfloor>m\<rfloor>),
       bin2mass = (\<lambda>bin. real_of_int bin),
       mono_h = 10078 / 10000, mono_oh = 170027 / 10000,
       MaxPeakInRange = (\<lambda>spec lo hi.
          fold max (map snd (filter (\<lambda>pk. lo \<le> fst pk \<and> fst pk \<le> hi) (Peaks spec))) 0),
       InitBin = (\<lambda>mz. (nat \<lfloor>mz\<rfloor> + 2, nat \<lfloor>mz\<rfloor> + 3)),
       GlobalBackgroundBinEnd = 24, GlobalCacheBinEnd = 25 \<rparr>"

text \<open>A state with one bin of background, two bins of cache and three bins within
  \<^verbatim>\<open>cache_end_\<close>.\<close>

definition obs_wide :: ObservedPeakSet where
  "obs_wide = \<lparr> ops_peaks = (\<lambda>_. 0), ops_cache = (\<lambda>_. 3), bbe = 1, cbe = 2, ops_cache_end = 24,
                ops_NL = True, ops_FP = True \<rparr>"

text \<open>Plain parameters: no precursor removal, no deisotoping; and the same with
  \<^verbatim>\<open>skip-preprocessing\<close> set.\<close>

definition plain_params :: Params where
  "plain_params = \<lparr> skip_preprocessing = False, remove_precursor_peak = False,
                     remove_precursor_tolerance = 0, deisotope = 0, exact_p_value = False \<rparr>"

definition skip_params :: Params where
  "skip_params = plain_params\<lparr> skip_preprocessing := True \<rparr>"

definition no_counts :: counters where
  "no_counts = \<lparr> num_range_skipped = 0, num_precursors_skipped = 0,
                  num_isotopes_skipped = 0, num_retained = 0 \<rparr>"

text \<open>A spectrum of three peaks, in the bins 0, 18 and 19, and the state in which the filling
  loop leaves it (precursor m/z 500, charge 1: the cutoff is 550).\<close>

definition three_peaks :: Spectrum where
  "three_peaks = \<lparr> PrecursorMZ = 500, Peaks = [(1/2, 1600), (37/2, 1), (39/2, 1/4)],
                    MaxCharge = 1, SpectrumNumber = 1 \<rparr>"

definition three_peaks_filled :: fill_state where
  "three_peaks_filled =
     fill example_headers plain_params three_peaks
       (experimental_mass_cut_off example_headers three_peaks 1) (Peaks three_peaks)
       \<lparr> fs_peaks = (\<lambda>_. 0), largest_mz = 0, highest_intensity = 0, fs_counters = no_counts \<rparr>"

text \<open>A spectrum of one peak, in bin 2; the same with a second peak beyond the cutoff 550;
  and an observed peak set that holds zeros.\<close>

definition single_peak :: Spectrum where
  "single_peak = \<lparr> PrecursorMZ = 500, Peaks = [(5/2, 150)], MaxCharge = 1, SpectrumNumber = 1 \<rparr>"

definition far_peak :: Spectrum where
  "far_peak = \<lparr> PrecursorMZ = 500, Peaks = [(5/2, 150), (600, 7)], MaxCharge = 1,
                 SpectrumNumber = 1 \<rparr>"

text \<open>The spectrum \<open>single_peak\<close> with a peak of intensity 4500 instead, and with one of
  intensity 50000.\<close>

definition strong_peak :: Spectrum where
  "strong_peak = single_peak\<lparr> Peaks := [(5/2, 4500)] \<rparr>"

definition huge_peak :: Spectrum where
  "huge_peak = single_peak\<lparr> Peaks := [(5/2, 50000)] \<rparr>"

text \<open>A spectrum with a peak just below the cutoff 550 and a stronger peak at the cutoff,
  and parameters with a deisotoping threshold of 1000 ppm.\<close>

definition near_cut :: Spectrum where
  "near_cut = \<lparr> PrecursorMZ = 500, Peaks = [(5499/10, 4), (550, 9)], MaxCharge = 4,
                 SpectrumNumber = 1 \<rparr>"

definition wide_deisotope :: Params where
  "wide_deisotope = plain_params\<lparr> deisotope := 1000 \<rparr>"

text \<open>The four bins of a spectrum with one peak, of intensity \<open>v\<close> in bin 2, once the
  background is subtracted (with \<^verbatim>\<open>MAX_XCORR_OFFSET\<close> 75 every window holds the four bins).\<close>

definition one_peak_subtracted :: "real \<Rightarrow> nat \<Rightarrow> real" where
  "one_peak_subtracted v i = (if i = 2 then v else if i < 4 then - v / 150 else 0)"

definition obs_zero :: ObservedPeakSet where
  "obs_zero = \<lparr> ops_peaks = (\<lambda>_. 0), ops_cache = (\<lambda>_. 0), bbe = 0, cbe = 0, ops_cache_end = 0,
                ops_NL = True, ops_FP = True \<rparr>"

text \<open>A search in exact-p-value mode with a deisotoping threshold, over one pair whose
  precursor m/z lies below the accepted range, and over one pair that is accepted.\<close>

definition exact_args :: search_args where
  "exact_args = \<lparr> thread_num = 0, num_threads = 1, spectrum_min_mz = 600, spectrum_max_mz = 1200,
                   min_scan = 0, max_scan = 1000000000, min_peaks = 1, search_charge = 0,
                   max_charge = 5, window_type = WINDOW_MASS, precursor_window = 3,
                   negative_isotope_errors = [0], exact_pval_search = True, spectrum_flag = None,
                   nCandPeptide = (\<lambda>_. 1) \<rparr>"

definition deisotope_params :: Params where
  "deisotope_params = plain_params\<lparr> deisotope := 10, exact_p_value := True \<rparr>"

definition low_pair :: SpecCharge where
  "low_pair = \<lparr> sc_neutral_mass = 499, sc_charge = 1, sc_spectrum = single_peak \<rparr>"

definition high_pair :: SpecCharge where
  "high_pair = \<lparr> sc_neutral_mass = 699, sc_charge = 1,
                  sc_spectrum = single_peak\<lparr> PrecursorMZ := 700 \<rparr> \<rparr>"

text \<open>A cache that holds \<open>i + 1\<close> in cell \<open>i\<close>, and two peptides.\<close>

definition cache_example :: "nat \<Rightarrow> 32 word" where
  "cache_example i = of_nat i + 1"

definition queue_example :: "Peptide list" where
  "queue_example = [\<lparr> peak_codes = (\<lambda>_. [0, 2]) \<rparr>, \<lparr> peak_codes = (\<lambda>_. [1, 3, 5]) \<rparr>]"

text \<open>A table of two residues, of the integer masses 5 and 7 and the frequency 1/2 each, and
  an evidence vector with one unit of evidence, in bin 6.\<close>

definition two_residues :: "nat \<Rightarrow> int" where
  "two_residues de = (if de = 0 then 5 else 7)"

definition half :: "nat \<Rightarrow> real" where
  "half de = 1 / 2"

definition one_evidence :: "int \<Rightarrow> int" where
  "one_evidence ma = (if ma = 6 then 1 else 0)"

section \<open>Theorems\<close>

subsection \<open>Precursor windows\<close>

text \<open>
  Claim C9. For a spectrum-charge pair of neutral mass \<open>m\<close> and a precursor window \<open>w\<close>,
  \<^verbatim>\<open>computeWindow\<close> in \<^verbatim>\<open>WINDOW_MASS\<close> mode with the isotope-error list \<open>{0}\<close>, called as
  \<^verbatim>\<open>search\<close> calls it (on two fresh, empty vectors), produces exactly one window, with
  \<open>min = m - w\<close> and \<open>max = m + w\<close>, and the envelope \<open>min_range = min\<close>,
  \<open>max_range = max\<close>. This holds for every bin width, proton mass and maximal charge.
\<close>

theorem computeWindow_mass_single:
  "computeWindow h sc WINDOW_MASS w mc [0] [] [] =
     Inr \<lparr> out_min = [sc_neutral_mass sc - w], out_max = [sc_neutral_mass sc + w],
           min_range = sc_neutral_mass sc - w, max_range = sc_neutral_mass sc + w \<rparr>"
  by (simp add: computeWindow_def)

subsection \<open>The integer cache\<close>

lemma fold_upt_Suc: "fold f [0..<Suc n] s = f n (fold f [0..<n] s)"
  by simp

lemma type_code_less: "type_code t < NUM_PEAK_TYPES"
  by (cases t) (simp_all add: NUM_PEAK_TYPES_def)

lemma type_code_inj: "type_code t = type_code t' \<longleftrightarrow> t = t'"
  by (cases t; cases t') simp_all

lemma Peak_index_eq: "Peak_index t i = Peak_index t' j \<longleftrightarrow> t = t' \<and> i = j"
proof
  assume eq: "Peak_index t i = Peak_index t' j"
  have a: "type_code t < 8" and b: "type_code t' < 8"
    using type_code_less [of t] type_code_less [of t'] by (simp_all add: NUM_PEAK_TYPES_def)
  from eq have e: "i * 8 + type_code t = j * 8 + type_code t'"
    by (simp add: Peak_index_def NUM_PEAK_TYPES_def)
  from e a b have "i = j" by arith
  with e have "type_code t = type_code t'" by simp
  with \<open>i = j\<close> show "t = t' \<and> i = j" by (simp add: type_code_inj)
qed simp

lemma Peak_set_Peak: "Peak (set_Peak t i v c) t' j = (if t' = t \<and> j = i then v else Peak c t' j)"
  by (simp add: Peak_def set_Peak_def Peak_index_eq)

lemma multiples_step_Peak:
  "Peak (multiples_step i c) t j =
     (if j = i \<and> t = LossPeak then 2 * Peak c PeakMain i
      else if j = i \<and> t = FlankingPeak then 5 * Peak c PeakMain i
      else if j = i \<and> t = PrimaryPeak then 10 * Peak c PeakMain i
      else Peak c t j)"
proof -
  have w: "\<And>x::32 word. x + x = 2 * x" "\<And>x::32 word. 2 * x + 2 * x + x = 5 * x"
    "\<And>x::32 word. 5 * x + 5 * x = 10 * x"
    by simp_all
  show ?thesis
    unfolding multiples_step_def Let_def Peak_set_Peak w
    by (cases t) simp_all
qed

lemma multiples_loop:
  "Peak (fold multiples_step [0..<n] c) t j =
     (if j < n \<and> t = LossPeak then 2 * Peak c PeakMain j
      else if j < n \<and> t = FlankingPeak then 5 * Peak c PeakMain j
      else if j < n \<and> t = PrimaryPeak then 10 * Peak c PeakMain j
      else Peak c t j)"
proof (induction n arbitrary: t j)
  case 0
  show ?case by simp
next
  case (Suc n)
  have main: "Peak (fold multiples_step [0..<n] c) PeakMain n = Peak c PeakMain n"
    by (simp add: Suc)
  show ?case
  proof (cases "j = n")
    case True
    then show ?thesis
      by (simp only: fold_upt_Suc multiples_step_Peak main) (simp add: Suc)
  next
    case False
    then have "j < Suc n \<longleftrightarrow> j < n" by arith
    with False show ?thesis
      by (simp only: fold_upt_Suc multiples_step_Peak Suc) simp
  qed
qed


lemma zero_list: "fold (\<lambda>i c. c(i := (0::32 word))) xs c k = (if k \<in> set xs then 0 else c k)"
  by (induction xs arbitrary: c) simp_all

lemma Peak_index_bounds: "i * NUM_PEAK_TYPES \<le> Peak_index t i \<and> Peak_index t i < (i + 1) * NUM_PEAK_TYPES"
proof -
  have "type_code t < 8"
    using type_code_less [of t] by (simp only: NUM_PEAK_TYPES_def)
  then show ?thesis
    unfolding Peak_index_def NUM_PEAK_TYPES_def by arith
qed

lemma zero_range_Peak:
  "Peak (fold (\<lambda>i c. c(i := 0)) [a * NUM_PEAK_TYPES..<b] c) t j =
     (if a \<le> j \<and> Peak_index t j < b then 0 else Peak c t j)"
proof -
  have "a * NUM_PEAK_TYPES \<le> Peak_index t j \<longleftrightarrow> a \<le> j"
  proof
    assume "a * NUM_PEAK_TYPES \<le> Peak_index t j"
    with Peak_index_bounds [of j t] have "a * NUM_PEAK_TYPES < (j + 1) * NUM_PEAK_TYPES" by linarith
    then have "a < j + 1" by (simp add: NUM_PEAK_TYPES_def)
    then show "a \<le> j" by simp
  next
    assume "a \<le> j"
    then have "a * NUM_PEAK_TYPES \<le> j * NUM_PEAK_TYPES" by simp
    with Peak_index_bounds [of j t] show "a * NUM_PEAK_TYPES \<le> Peak_index t j" by linarith
  qed
  then show ?thesis by (simp add: Peak_def zero_list)
qed

lemma combine_step_frame:
  "j \<noteq> i \<or> \<not> combined t \<Longrightarrow> Peak (combine_step h obs i c) t j = Peak c t j"
  unfolding combine_step_def Let_def Peak_set_Peak combined_def by (cases t) auto

lemma combine_step_pairs:
  "Peak (combine_step h obs i c) PeakCombinedB1 i = Peak (combine_step h obs i c) PeakCombinedY1 i
   \<and> Peak (combine_step h obs i c) PeakCombinedB2 i = Peak (combine_step h obs i c) PeakCombinedY2 i"
  unfolding combine_step_def Let_def Peak_set_Peak by simp

lemma combine_loop_frame:
  "n \<le> j \<or> \<not> combined t \<Longrightarrow> Peak (fold (combine_step h obs) [0..<n] c) t j = Peak c t j"
proof (induction n)
  case 0
  show ?case by simp
next
  case (Suc n)
  from Suc.prems have a: "j \<noteq> n \<or> \<not> combined t" and b: "n \<le> j \<or> \<not> combined t" by auto
  show ?case
    by (simp only: fold_upt_Suc combine_step_frame [OF a] Suc.IH [OF b])
qed

lemma combine_loop_pairs:
  "j < n \<Longrightarrow>
   Peak (fold (combine_step h obs) [0..<n] c) PeakCombinedB1 j
     = Peak (fold (combine_step h obs) [0..<n] c) PeakCombinedY1 j
   \<and> Peak (fold (combine_step h obs) [0..<n] c) PeakCombinedB2 j
     = Peak (fold (combine_step h obs) [0..<n] c) PeakCombinedY2 j"
proof (induction n)
  case 0
  then show ?case by simp
next
  case (Suc n)
  show ?case
  proof (cases "j = n")
    case True
    then show ?thesis
      by (simp only: fold_upt_Suc combine_step_pairs)
  next
    case False
    with Suc.prems have "j < n" by simp
    from False have a: "\<And>t. j \<noteq> n \<or> \<not> combined t" by simp
    show ?thesis
      by (simp only: fold_upt_Suc combine_step_frame [OF a] Suc.IH [OF \<open>j < n\<close>])
  qed
qed

lemma sint_times:
  fixes x :: "32 word"
  assumes "fits_int (k * sint x)" and "k = 2 \<or> k = 5 \<or> k = 10"
  shows "sint (word_of_int k * x) = k * sint x"
proof -
  have "sint (word_of_int k * x) = signed_take_bit 31 (sint (word_of_int k :: 32 word) * sint x)"
    by (simp add: sint_word_ariths)
  moreover have "sint (word_of_int k :: 32 word) = k"
    using assms(2) by auto
  moreover have "signed_take_bit 31 (k * sint x) = k * sint x"
    using assms(1) by (simp add: signed_take_bit_int_eq_self_iff fits_int_def)
  ultimately show ?thesis by simp
qed

lemma fits_int_smaller:
  assumes "fits_int (10 * k)"
  shows "fits_int (2 * k)" and "fits_int (5 * k)"
  using assms unfolding fits_int_def by auto

lemma near_end: "int i < int n - 1 \<longleftrightarrow> i + 1 < n"
  by auto

lemma combine_step_values:
  "Peak (combine_step h obs i c) PeakCombinedY2 i =
     Peak c PrimaryPeak i
     + (if ops_FP obs \<and> 0 < i then Peak c FlankingPeak (i - 1) else 0)
     + (if ops_FP obs \<and> i + 1 < cbe obs then Peak c FlankingPeak (i + 1) else 0)"
  "Peak (combine_step h obs i c) PeakCombinedY1 i =
     Peak c PrimaryPeak i
     + (if ops_FP obs \<and> 0 < i then Peak c FlankingPeak (i - 1) else 0)
     + (if ops_FP obs \<and> i + 1 < cbe obs then Peak c FlankingPeak (i + 1) else 0)
     + (if ops_NL obs \<and> BIN_NH3 h < i then Peak c LossPeak (i - BIN_NH3 h) else 0)
     + (if ops_NL obs \<and> BIN_H2O h < i then Peak c LossPeak (i - BIN_H2O h) else 0)"
  unfolding combine_step_def Let_def Peak_set_Peak near_end by simp_all

lemma combine_loop_values:
  assumes "j < n"
  shows "Peak (fold (combine_step h obs) [0..<n] c) PeakCombinedY2 j =
     Peak c PrimaryPeak j
     + (if ops_FP obs \<and> 0 < j then Peak c FlankingPeak (j - 1) else 0)
     + (if ops_FP obs \<and> j + 1 < cbe obs then Peak c FlankingPeak (j + 1) else 0)"
  and "Peak (fold (combine_step h obs) [0..<n] c) PeakCombinedY1 j =
     Peak c PrimaryPeak j
     + (if ops_FP obs \<and> 0 < j then Peak c FlankingPeak (j - 1) else 0)
     + (if ops_FP obs \<and> j + 1 < cbe obs then Peak c FlankingPeak (j + 1) else 0)
     + (if ops_NL obs \<and> BIN_NH3 h < j then Peak c LossPeak (j - BIN_NH3 h) else 0)
     + (if ops_NL obs \<and> BIN_H2O h < j then Peak c LossPeak (j - BIN_H2O h) else 0)"
  using assms
proof (induction n)
  case 0
  { case 1 then show ?case by simp }
  { case 2 then show ?case by simp }
next
  case (Suc n)
  have plain: "\<And>t k. \<not> combined t \<Longrightarrow> Peak (fold (combine_step h obs) [0..<n] c) t k = Peak c t k"
    by (simp add: combine_loop_frame)
  { case 1
    show ?case
    proof (cases "j = n")
      case True
      then show ?thesis
        by (simp only: fold_upt_Suc combine_step_values) (simp add: plain combined_def)
    next
      case False
      with 1 have "j < n" by simp
      from False have a: "\<And>t. j \<noteq> n \<or> \<not> combined t" by simp
      show ?thesis
        by (simp only: fold_upt_Suc combine_step_frame [OF a] Suc.IH(1) [OF \<open>j < n\<close>])
    qed }
  { case 2
    show ?case
    proof (cases "j = n")
      case True
      then show ?thesis
        by (simp only: fold_upt_Suc combine_step_values) (simp add: plain combined_def)
    next
      case False
      with 2 have "j < n" by simp
      from False have a: "\<And>t. j \<noteq> n \<or> \<not> combined t" by simp
      show ?thesis
        by (simp only: fold_upt_Suc combine_step_frame [OF a] Suc.IH(2) [OF \<open>j < n\<close>])
    qed }
qed


text \<open>
  Claim C10, as amended. \<^verbatim>\<open>ComputeCache\<close>, run from any state, leaves the base value
  \<open>PeakMain(i)\<close> of every bin \<open>i\<close> below the background end as it found it and sets the
  derived cells of the bin to multiples of that value in the 32-bit arithmetic of the cells:
  \<open>LossPeak(i) = 2 * PeakMain(i)\<close>, \<open>FlankingPeak(i) = 5 * PeakMain(i)\<close> and
  \<open>PrimaryPeak(i) = 10 * PeakMain(i)\<close>, modulo \<open>2^32\<close>. Whenever ten times the base value is
  a value of the type \<^verbatim>\<open>int\<close>, the three cells hold exactly twice, five times and ten times
  the base value, as integers. The four cells of a bin from the background end on that lies
  within \<^verbatim>\<open>cache_end_\<close> are 0. For every bin below the cache end of the spectrum,
  \<open>PeakCombinedY2(i)\<close> is the sum of \<open>PrimaryPeak(i)\<close> and, when flanking peaks are on, of
  \<open>FlankingPeak(i - 1)\<close> (for \<open>0 < i\<close>) and \<open>FlankingPeak(i + 1)\<close> (for \<open>i + 1\<close> below the cache
  end); \<open>PeakCombinedY1(i)\<close> adds to it, when neutral losses are on, \<open>LossPeak(i - BIN_NH3)\<close>
  and \<open>LossPeak(i - BIN_H2O)\<close> (where \<open>i\<close> exceeds the offset); and the combined series
  coincide, \<open>PeakCombinedB1(i) = PeakCombinedY1(i)\<close> and
  \<open>PeakCombinedB2(i) = PeakCombinedY2(i)\<close>. The four combined cells of a bin from both ends on
  that lies within \<^verbatim>\<open>cache_end_\<close> are 0.
\<close>

theorem ComputeCache_multiples:
  "(\<forall>i<bbe obs.
      Peak (ops_cache (ComputeCache h obs)) PeakMain i = Peak (ops_cache obs) PeakMain i
    \<and> Peak (ops_cache (ComputeCache h obs)) LossPeak i = 2 * Peak (ops_cache obs) PeakMain i
    \<and> Peak (ops_cache (ComputeCache h obs)) FlankingPeak i = 5 * Peak (ops_cache obs) PeakMain i
    \<and> Peak (ops_cache (ComputeCache h obs)) PrimaryPeak i = 10 * Peak (ops_cache obs) PeakMain i
    \<and> (fits_int (10 * sint (Peak (ops_cache obs) PeakMain i)) \<longrightarrow>
          sint (Peak (ops_cache (ComputeCache h obs)) LossPeak i) = 2 * sint (Peak (ops_cache obs) PeakMain i)
        \<and> sint (Peak (ops_cache (ComputeCache h obs)) FlankingPeak i) = 5 * sint (Peak (ops_cache obs) PeakMain i)
        \<and> sint (Peak (ops_cache (ComputeCache h obs)) PrimaryPeak i) = 10 * sint (Peak (ops_cache obs) PeakMain i)))
   \<and> (\<forall>i. bbe obs \<le> i \<and> (i + 1) * NUM_PEAK_TYPES \<le> ops_cache_end obs \<longrightarrow>
      Peak (ops_cache (ComputeCache h obs)) PeakMain i = 0
    \<and> Peak (ops_cache (ComputeCache h obs)) LossPeak i = 0
    \<and> Peak (ops_cache (ComputeCache h obs)) FlankingPeak i = 0
    \<and> Peak (ops_cache (ComputeCache h obs)) PrimaryPeak i = 0)
   \<and> (\<forall>i<cbe obs.
      Peak (ops_cache (ComputeCache h obs)) PeakCombinedY2 i =
        Peak (ops_cache (ComputeCache h obs)) PrimaryPeak i
        + (if ops_FP obs \<and> 0 < i then Peak (ops_cache (ComputeCache h obs)) FlankingPeak (i - 1) else 0)
        + (if ops_FP obs \<and> i + 1 < cbe obs then Peak (ops_cache (ComputeCache h obs)) FlankingPeak (i + 1) else 0)
    \<and> Peak (ops_cache (ComputeCache h obs)) PeakCombinedY1 i =
        Peak (ops_cache (ComputeCache h obs)) PeakCombinedY2 i
        + (if ops_NL obs \<and> BIN_NH3 h < i then Peak (ops_cache (ComputeCache h obs)) LossPeak (i - BIN_NH3 h) else 0)
        + (if ops_NL obs \<and> BIN_H2O h < i then Peak (ops_cache (ComputeCache h obs)) LossPeak (i - BIN_H2O h) else 0)
    \<and> Peak (ops_cache (ComputeCache h obs)) PeakCombinedB1 i = Peak (ops_cache (ComputeCache h obs)) PeakCombinedY1 i
    \<and> Peak (ops_cache (ComputeCache h obs)) PeakCombinedB2 i = Peak (ops_cache (ComputeCache h obs)) PeakCombinedY2 i)
   \<and> (\<forall>i. cbe obs \<le> i \<and> bbe obs \<le> i \<and> (i + 1) * NUM_PEAK_TYPES \<le> ops_cache_end obs \<longrightarrow>
      Peak (ops_cache (ComputeCache h obs)) PeakCombinedY1 i = 0
    \<and> Peak (ops_cache (ComputeCache h obs)) PeakCombinedB1 i = 0
    \<and> Peak (ops_cache (ComputeCache h obs)) PeakCombinedY2 i = 0
    \<and> Peak (ops_cache (ComputeCache h obs)) PeakCombinedB2 i = 0)"
proof -
  define c1 where "c1 = fold multiples_step [0..<bbe obs] (ops_cache obs)"
  define c2 where "c2 = fold (\<lambda>i cache. cache(i := 0)) [bbe obs * NUM_PEAK_TYPES ..< ops_cache_end obs] c1"
  define c3 where "c3 = fold (combine_step h obs) [0..<cbe obs] c2"
  have res: "ops_cache (ComputeCache h obs) = c3"
    by (simp add: ComputeCache_def Let_def c1_def c2_def c3_def)
  have plain: "Peak c3 t i = Peak c2 t i" if "\<not> combined t" for t i
    unfolding c3_def using that by (simp add: combine_loop_frame)
  have c2_eq: "Peak c2 t i = (if bbe obs \<le> i \<and> Peak_index t i < ops_cache_end obs then 0 else Peak c1 t i)" for t i
    unfolding c2_def by (rule zero_range_Peak)
  have inside: "Peak_index t i < ops_cache_end obs" if "(i + 1) * NUM_PEAK_TYPES \<le> ops_cache_end obs" for t i
    using that Peak_index_bounds [of i t] by linarith
  have words: "Peak c3 PeakMain i = Peak (ops_cache obs) PeakMain i
             \<and> Peak c3 LossPeak i = 2 * Peak (ops_cache obs) PeakMain i
             \<and> Peak c3 FlankingPeak i = 5 * Peak (ops_cache obs) PeakMain i
             \<and> Peak c3 PrimaryPeak i = 10 * Peak (ops_cache obs) PeakMain i"
    if "i < bbe obs" for i
    using that by (simp add: plain combined_def c2_eq c1_def multiples_loop)
  have ints: "sint (Peak c3 LossPeak i) = 2 * sint (Peak (ops_cache obs) PeakMain i)
            \<and> sint (Peak c3 FlankingPeak i) = 5 * sint (Peak (ops_cache obs) PeakMain i)
            \<and> sint (Peak c3 PrimaryPeak i) = 10 * sint (Peak (ops_cache obs) PeakMain i)"
    if "i < bbe obs" and f: "fits_int (10 * sint (Peak (ops_cache obs) PeakMain i))" for i
  proof -
    have "sint (2 * Peak (ops_cache obs) PeakMain i) = 2 * sint (Peak (ops_cache obs) PeakMain i)"
      using sint_times [of 2 "Peak (ops_cache obs) PeakMain i"] fits_int_smaller(1) [OF f] by simp
    moreover have "sint (5 * Peak (ops_cache obs) PeakMain i) = 5 * sint (Peak (ops_cache obs) PeakMain i)"
      using sint_times [of 5 "Peak (ops_cache obs) PeakMain i"] fits_int_smaller(2) [OF f] by simp
    moreover have "sint (10 * Peak (ops_cache obs) PeakMain i) = 10 * sint (Peak (ops_cache obs) PeakMain i)"
      using sint_times [of 10 "Peak (ops_cache obs) PeakMain i"] f by simp
    ultimately show ?thesis
      using words [OF \<open>i < bbe obs\<close>] by simp
  qed
  have zeroed: "Peak c3 t i = 0"
    if "bbe obs \<le> i" and "(i + 1) * NUM_PEAK_TYPES \<le> ops_cache_end obs" and "\<not> combined t \<or> cbe obs \<le> i" for t i
  proof -
    from that(3) have "cbe obs \<le> i \<or> \<not> combined t" by blast
    then have "Peak c3 t i = Peak c2 t i"
      unfolding c3_def by (rule combine_loop_frame)
    with that(1,2) show ?thesis by (simp add: c2_eq inside)
  qed
  have sums: "Peak c3 PeakCombinedY2 i =
        Peak c3 PrimaryPeak i
        + (if ops_FP obs \<and> 0 < i then Peak c3 FlankingPeak (i - 1) else 0)
        + (if ops_FP obs \<and> i + 1 < cbe obs then Peak c3 FlankingPeak (i + 1) else 0)
    \<and> Peak c3 PeakCombinedY1 i =
        Peak c3 PeakCombinedY2 i
        + (if ops_NL obs \<and> BIN_NH3 h < i then Peak c3 LossPeak (i - BIN_NH3 h) else 0)
        + (if ops_NL obs \<and> BIN_H2O h < i then Peak c3 LossPeak (i - BIN_H2O h) else 0)
    \<and> Peak c3 PeakCombinedB1 i = Peak c3 PeakCombinedY1 i
    \<and> Peak c3 PeakCombinedB2 i = Peak c3 PeakCombinedY2 i"
    if "i < cbe obs" for i
  proof -
    have p: "Peak c3 PrimaryPeak k = Peak c2 PrimaryPeak k" "Peak c3 FlankingPeak k = Peak c2 FlankingPeak k"
      "Peak c3 LossPeak k = Peak c2 LossPeak k" for k
      by (simp_all add: plain combined_def)
    have "Peak c3 PeakCombinedB1 i = Peak c3 PeakCombinedY1 i
        \<and> Peak c3 PeakCombinedB2 i = Peak c3 PeakCombinedY2 i"
      unfolding c3_def using that by (rule combine_loop_pairs)
    then show ?thesis
      unfolding p unfolding c3_def combine_loop_values [OF that] by simp
  qed
  show ?thesis
    unfolding res
    apply (intro conjI)
    subgoal using words ints by blast
    subgoal by (simp add: zeroed combined_def)
    subgoal using sums by blast
    subgoal by (simp add: zeroed)
    done
qed


theorem ComputeCache_multiples_witness:
  "(0::nat) < bbe obs_wide
   \<and> fits_int (10 * sint (Peak (ops_cache obs_wide) PeakMain 0))
   \<and> sint (Peak (ops_cache (ComputeCache example_headers obs_wide)) PeakMain 0) = 3
   \<and> sint (Peak (ops_cache (ComputeCache example_headers obs_wide)) LossPeak 0) = 6
   \<and> sint (Peak (ops_cache (ComputeCache example_headers obs_wide)) FlankingPeak 0) = 15
   \<and> sint (Peak (ops_cache (ComputeCache example_headers obs_wide)) PrimaryPeak 0) = 30
   \<and> bbe obs_wide \<le> 1 \<and> (1 + 1) * NUM_PEAK_TYPES \<le> ops_cache_end obs_wide
   \<and> Peak (ops_cache (ComputeCache example_headers obs_wide)) PrimaryPeak 1 = 0
   \<and> (1::nat) < cbe obs_wide
   \<and> Peak (ops_cache (ComputeCache example_headers obs_wide)) PeakCombinedY2 1 = 15
   \<and> Peak (ops_cache (ComputeCache example_headers obs_wide)) PeakCombinedB2 1 = 15
   \<and> Peak (ops_cache (ComputeCache example_headers obs_wide)) PeakCombinedY1 1 = 15
   \<and> Peak (ops_cache (ComputeCache example_headers obs_wide)) PeakCombinedB1 1 = 15
   \<and> cbe obs_wide \<le> 2 \<and> (2 + 1) * NUM_PEAK_TYPES \<le> ops_cache_end obs_wide
   \<and> Peak (ops_cache (ComputeCache example_headers obs_wide)) PeakCombinedB1 2 = 0"
proof -
  note T = ComputeCache_multiples [of obs_wide example_headers]
  have h0: "(0::nat) < bbe obs_wide"
    by (simp add: obs_wide_def)
  have h1: "bbe obs_wide \<le> 1 \<and> (1 + 1) * NUM_PEAK_TYPES \<le> ops_cache_end obs_wide"
    by (simp add: obs_wide_def NUM_PEAK_TYPES_def)
  have h2: "(1::nat) < cbe obs_wide"
    by (simp add: obs_wide_def)
  have h3: "cbe obs_wide \<le> 2 \<and> bbe obs_wide \<le> 2 \<and> (2 + 1) * NUM_PEAK_TYPES \<le> ops_cache_end obs_wide"
    by (simp add: obs_wide_def NUM_PEAK_TYPES_def)
  have inp: "Peak (ops_cache obs_wide) PeakMain 0 = 3"
    by (simp add: obs_wide_def Peak_def)
  have f: "fits_int (10 * sint (Peak (ops_cache obs_wide) PeakMain 0))"
    by (simp add: inp fits_int_def)
  note p0 = T [THEN conjunct1, rule_format, OF h0]
  note p1 = T [THEN conjunct2, THEN conjunct1, rule_format, OF h1]
  note p2 = T [THEN conjunct2, THEN conjunct2, THEN conjunct1, rule_format, OF h2]
  note p3 = T [THEN conjunct2, THEN conjunct2, THEN conjunct2, rule_format, OF h3]
  have flank: "Peak (ops_cache (ComputeCache example_headers obs_wide)) FlankingPeak 0 = 15"
    using p0 by (simp add: inp)
  have ex: "ops_FP obs_wide" "ops_NL obs_wide" "cbe obs_wide = 2" "BIN_NH3 example_headers = 17"
    "BIN_H2O example_headers = 18"
    by (simp_all add: obs_wide_def example_headers_def)
  have y2: "Peak (ops_cache (ComputeCache example_headers obs_wide)) PeakCombinedY2 1 = 15"
    using p2 p1 flank by (simp add: ex)
  have y1: "Peak (ops_cache (ComputeCache example_headers obs_wide)) PeakCombinedY1 1 = 15"
    using p2 y2 by (simp add: ex)
  from p0 f have s: "sint (Peak (ops_cache (ComputeCache example_headers obs_wide)) LossPeak 0) = 6" "sint (Peak (ops_cache (ComputeCache example_headers obs_wide)) FlankingPeak 0) = 15"
    "sint (Peak (ops_cache (ComputeCache example_headers obs_wide)) PrimaryPeak 0) = 30" "sint (Peak (ops_cache (ComputeCache example_headers obs_wide)) PeakMain 0) = 3"
    by (simp_all add: inp)
  show ?thesis
    using h0 f s h1 p1 h2 y2 y1 p2 h3 p3 by simp
qed

subsection \<open>Background subtraction\<close>

text \<open>A loop whose step \<open>i\<close> rewrites cell \<open>i\<close> from its own old value, run over distinct
  indices, rewrites each of them once.\<close>

lemma fold_pointwise:
  assumes "\<And>i f. step i f = f(i := g i (f i))" and "distinct xs"
  shows "fold step xs f k = (if k \<in> set xs then g k (f k) else f k)"
  using assms(2)
proof (induction xs arbitrary: f)
  case Nil
  show ?case by simp
next
  case (Cons x xs)
  then show ?case by (auto simp: assms(1))
qed

lemma partial_sums_fold:
  "fold (partial_sums_step observed) [0..<n] (0, \<lambda>_. 0)
     = (\<Sum>j<n. observed j, \<lambda>k. if k < n then (\<Sum>j\<le>k. observed j) else 0)"
proof (induction n)
  case 0
  show ?case by simp
next
  case (Suc n)
  have "fold (partial_sums_step observed) [0..<Suc n] (0, \<lambda>_. 0)
          = partial_sums_step observed n (fold (partial_sums_step observed) [0..<n] (0, \<lambda>_. 0))"
    by (rule fold_upt_Suc)
  also have "\<dots> = (\<Sum>j<Suc n. observed j, \<lambda>k. if k < Suc n then (\<Sum>j\<le>k. observed j) else 0)"
    unfolding Suc partial_sums_step_def Let_def
    by (auto simp: fun_eq_iff lessThan_Suc_atMost [symmetric] less_Suc_eq add.commute)
  finally show ?case .
qed

lemma partial_sums_eq:
  "partial_sums observed end k =
     (if k < end then (\<Sum>j\<le>k. observed j) else if k = end then (\<Sum>j<end. observed j) else 0)"
  by (simp add: partial_sums_def Let_def partial_sums_fold)

lemma SubtractBackground_eq:
  "SubtractBackground h observed end i =
     (if i < end
      then observed i - 1 / real (MAX_XCORR_OFFSET h * 2)
             * (partial_sums observed end (min end (i + MAX_XCORR_OFFSET h))
                - partial_sums observed end (nat (max 0 (int i - int (MAX_XCORR_OFFSET h) - 1)))
                - observed i)
      else observed i)"
proof -
  define G where "G = (\<lambda>i v. v - 1 / real (MAX_XCORR_OFFSET h * 2)
             * (partial_sums observed end (min end (i + MAX_XCORR_OFFSET h))
                - partial_sums observed end (nat (max 0 (int i - int (MAX_XCORR_OFFSET h) - 1)))
                - v))"
  have step: "subtract_step h (partial_sums observed end) end j f = f(j := G j (f j))" for j f
    by (simp add: subtract_step_def Let_def G_def)
  have "fold (subtract_step h (partial_sums observed end) end) [0..<end] observed i
          = (if i \<in> set [0..<end] then G i (observed i) else observed i)"
    by (rule fold_pointwise [of "subtract_step h (partial_sums observed end) end" G, OF step distinct_upt])
  then show ?thesis
    by (simp add: SubtractBackground_def G_def)
qed

lemma sum_below_diff:
  fixes f :: "nat \<Rightarrow> real"
  assumes "a \<le> b"
  shows "(\<Sum>j<b. f j) - (\<Sum>j<a. f j) = (\<Sum>j\<in>{a..<b}. f j)"
  using sum_diff_nat_ivl [of 0 a b f] assms by (simp add: atLeast0LessThan)

lemma SubtractBackground_sum:
  assumes "0 < MAX_XCORR_OFFSET h" and "MAX_XCORR_OFFSET h + 1 \<le> i" and "i < end"
  shows "SubtractBackground h observed end i =
           observed i - (\<Sum>j\<in>{i - MAX_XCORR_OFFSET h..min (i + MAX_XCORR_OFFSET h) (end - 1)} - {i}. observed j)
                          / (2 * real (MAX_XCORR_OFFSET h))"
proof -
  define K where "K = MAX_XCORR_OFFSET h"
  define hi where "hi = min end (i + K + 1)"
  have K: "0 < K" "K + 1 \<le> i" "i < end"
    using assms by (simp_all add: K_def)
  have l: "nat (max 0 (int i - int K - 1)) = i - K - 1" using K by simp
  have pr: "partial_sums observed end (min end (i + K)) = (\<Sum>j<hi. observed j)"
  proof (cases "i + K < end")
    case True
    then have "min end (i + K) = i + K" "hi = Suc (i + K)" by (simp_all add: hi_def)
    with True show ?thesis by (simp only: partial_sums_eq if_True lessThan_Suc_atMost)
  next
    case False
    then have "min end (i + K) = end" "hi = end" by (simp_all add: hi_def)
    then show ?thesis by (simp add: partial_sums_eq)
  qed
  have "i - K - 1 < end" using K by simp
  then have "partial_sums observed end (i - K - 1) = (\<Sum>j\<le>i - K - 1. observed j)"
    by (simp only: partial_sums_eq if_True)
  moreover have "{..i - K - 1} = {..<Suc (i - K - 1)}"
    by (rule lessThan_Suc_atMost [symmetric])
  moreover have "Suc (i - K - 1) = i - K" using K by simp
  ultimately have pl: "partial_sums observed end (i - K - 1) = (\<Sum>j<i - K. observed j)"
    by (simp only:)
  have "i - K \<le> hi" using K unfolding hi_def by arith
  then have d: "(\<Sum>j<hi. observed j) - (\<Sum>j<i - K. observed j) = (\<Sum>j\<in>{i - K..<hi}. observed j)"
    by (rule sum_below_diff)
  have "i - K \<le> i \<and> i < hi" using K unfolding hi_def by arith
  then have "i \<in> {i - K..<hi}" by simp
  then have r: "(\<Sum>j\<in>{i - K..<hi}. observed j) = observed i + (\<Sum>j\<in>{i - K..<hi} - {i}. observed j)"
    by (intro sum.remove) simp_all
  have "hi = Suc (min (i + K) (end - 1))" using K unfolding hi_def by arith
  then have w: "{i - K..<hi} = {i - K..min (i + K) (end - 1)}"
    by (simp only: atLeastLessThanSuc_atLeastAtMost)
  have "SubtractBackground h observed end i
          = observed i - 1 / real (K * 2) * ((\<Sum>j<hi. observed j) - (\<Sum>j<i - K. observed j) - observed i)"
    using K(3) by (simp only: SubtractBackground_eq K_def [symmetric] l pr pl if_True)
  also have "\<dots> = observed i - 1 / real (K * 2) * (\<Sum>j\<in>{i - K..<hi} - {i}. observed j)"
    by (simp only: d r) simp
  also have "\<dots> = observed i - (\<Sum>j\<in>{i - K..min (i + K) (end - 1)} - {i}. observed j) / (2 * real K)"
    by (simp only: w) (simp add: mult.commute)
  finally show ?thesis by (simp only: K_def)
qed


lemma constant_window:
  fixes c :: real
  assumes "0 < K" and "K + 1 \<le> i" and "i < end" and "\<forall>j<end. observed j = c"
  shows "observed i - (\<Sum>j\<in>{i - K..min (i + K) (end - 1)} - {i}. observed j) / (2 * real K)
           = c * real (K - min K (end - 1 - i)) / (2 * real K)"
proof -
  define W where "W = {i - K..min (i + K) (end - 1)} - {i}"
  define m where "m = min K (end - 1 - i)"
  have "\<And>j. j \<in> W \<Longrightarrow> j < end"
    using assms(3) unfolding W_def by auto
  then have "(\<Sum>j\<in>W. observed j) = (\<Sum>j\<in>W. c)"
    using assms(4) by (intro sum.cong) simp_all
  also have "\<dots> = c * real (card W)" by simp
  finally have s: "(\<Sum>j\<in>W. observed j) = c * real (card W)" .
  have "i - K \<le> i \<and> i \<le> min (i + K) (end - 1)" using assms(1-3) by arith
  then have "i \<in> {i - K..min (i + K) (end - 1)}" by simp
  then have "card W = card {i - K..min (i + K) (end - 1)} - 1"
    unfolding W_def by simp
  also have "\<dots> = min (i + K) (end - 1) - (i - K)" by simp
  also have "\<dots> = K + m" using assms(1-3) unfolding m_def by arith
  finally have cw: "card W = K + m" .
  have mK: "m \<le> K" by (simp add: m_def)
  have oi: "observed i = c" using assms(3,4) by simp
  have "c - c * real (K + m) / (2 * real K) = c * real (K - m) / (2 * real K)"
    using assms(1) mK by (simp add: field_simps of_nat_diff)
  then show ?thesis
    using s cw oi by (simp only: W_def [symmetric] m_def [symmetric])
qed

text \<open>
  Claim C2, as amended. With \<open>K\<close> the half-width \<^verbatim>\<open>MAX_XCORR_OFFSET\<close>, background
  subtraction takes from every bin \<open>i\<close> with \<open>K + 1 \<le> i < end\<close> the sum of the other bins
  of the window from \<open>i - K\<close> to \<open>min (i + K) (end - 1)\<close>, divided by the fixed \<open>2K\<close>: the
  window is cut at the right end of the array while the divisor stays \<open>2K\<close>. Consequently,
  for a spectrum whose bins below \<open>end\<close> all hold one intensity \<open>c\<close>, the result at such a
  bin is \<open>c * (K - min K (end - 1 - i)) / 2K\<close>: it is exactly zero if and only if \<open>c = 0\<close>
  or \<open>i + K < end\<close>, whatever the length.
\<close>

theorem SubtractBackground_window:
  assumes "0 < MAX_XCORR_OFFSET h" and "MAX_XCORR_OFFSET h + 1 \<le> i" and "i < end"
  shows "SubtractBackground h observed end i =
           observed i - (\<Sum>j\<in>{i - MAX_XCORR_OFFSET h..min (i + MAX_XCORR_OFFSET h) (end - 1)} - {i}. observed j)
                          / (2 * real (MAX_XCORR_OFFSET h))
       \<and> ((\<forall>j<end. observed j = c) \<longrightarrow>
            SubtractBackground h observed end i
              = c * real (MAX_XCORR_OFFSET h - min (MAX_XCORR_OFFSET h) (end - 1 - i))
                  / (2 * real (MAX_XCORR_OFFSET h))
          \<and> (SubtractBackground h observed end i = 0 \<longleftrightarrow> c = 0 \<or> i + MAX_XCORR_OFFSET h < end))"
proof (intro conjI impI)
  show g: "SubtractBackground h observed end i =
           observed i - (\<Sum>j\<in>{i - MAX_XCORR_OFFSET h..min (i + MAX_XCORR_OFFSET h) (end - 1)} - {i}. observed j)
                          / (2 * real (MAX_XCORR_OFFSET h))"
    using assms by (rule SubtractBackground_sum)
  assume all: "\<forall>j<end. observed j = c"
  show v: "SubtractBackground h observed end i
              = c * real (MAX_XCORR_OFFSET h - min (MAX_XCORR_OFFSET h) (end - 1 - i))
                  / (2 * real (MAX_XCORR_OFFSET h))"
    unfolding g using assms all by (rule constant_window)
  define d where "d = MAX_XCORR_OFFSET h - min (MAX_XCORR_OFFSET h) (end - 1 - i)"
  have "d = 0 \<longleftrightarrow> i + MAX_XCORR_OFFSET h < end"
    using assms unfolding d_def by arith
  moreover have "c * real d / (2 * real (MAX_XCORR_OFFSET h)) = 0 \<longleftrightarrow> c = 0 \<or> d = 0"
    using assms(1) by simp
  ultimately show "SubtractBackground h observed end i = 0 \<longleftrightarrow> c = 0 \<or> i + MAX_XCORR_OFFSET h < end"
    unfolding v d_def [symmetric] by (simp only:)
qed


lemma ramp_window: "{6..9::nat} - {8} = {6, 7, 9}"
  by auto

theorem SubtractBackground_window_witness:
  "0 < MAX_XCORR_OFFSET example_headers
   \<and> MAX_XCORR_OFFSET example_headers + 1 \<le> 100
   \<and> (199::nat) < 200
   \<and> SubtractBackground example_headers (\<lambda>_. 150) 200 100 = 0
   \<and> SubtractBackground example_headers (\<lambda>_. 150) 200 199 = 75
   \<and> SubtractBackground (example_headers\<lparr>MAX_XCORR_OFFSET := 2\<rparr>) real 10 8 = 5 / 2"
proof -
  have K: "MAX_XCORR_OFFSET example_headers = 75"
    by (simp add: example_headers_def)
  have a: "0 < MAX_XCORR_OFFSET example_headers" "MAX_XCORR_OFFSET example_headers + 1 \<le> 100"
    "MAX_XCORR_OFFSET example_headers + 1 \<le> 199" "(100::nat) < 200" "(199::nat) < 200"
    by (simp_all add: K)
  have all: "\<forall>j<200::nat. (\<lambda>_. 150::real) j = 150" by simp
  have mid: "SubtractBackground example_headers (\<lambda>_. 150) 200 100 = 0"
    using SubtractBackground_window [OF a(1) a(2) a(4), of "\<lambda>_. 150" 150] all
    by (simp add: K)
  have last: "SubtractBackground example_headers (\<lambda>_. 150) 200 199 = 75"
    using SubtractBackground_window [OF a(1) a(3) a(5), of "\<lambda>_. 150" 150] all
    by (simp add: K)
  have b: "0 < MAX_XCORR_OFFSET (example_headers\<lparr>MAX_XCORR_OFFSET := 2\<rparr>)"
    "MAX_XCORR_OFFSET (example_headers\<lparr>MAX_XCORR_OFFSET := 2\<rparr>) + 1 \<le> 8" "(8::nat) < 10"
    by simp_all
  have ramp: "SubtractBackground (example_headers\<lparr>MAX_XCORR_OFFSET := 2\<rparr>) real 10 8 = 5 / 2"
    using SubtractBackground_window [OF b, of real 0, THEN conjunct1]
    by (simp add: ramp_window)
  from a mid last ramp show ?thesis by simp
qed

text \<open>
  Claim C2 as stated fails near the ends of the array: a spectrum of one bin of intensity 150
  becomes 151, and in a spectrum of 200 bins of intensity 150 the first bin becomes 76 and
  the last one 75.
\<close>

theorem SubtractBackground_constant_counterexample:
  "SubtractBackground example_headers (\<lambda>_. 150) 1 0 = 151
   \<and> SubtractBackground example_headers (\<lambda>_. 150) 200 0 = 76
   \<and> SubtractBackground example_headers (\<lambda>_. 150) 200 199 = 75"
  by (simp add: SubtractBackground_eq partial_sums_eq example_headers_def)

subsection \<open>Normalising each region\<close>

lemma fold_pointwise_idx:
  assumes "\<And>j f. step j f = f(idx j := g (f (idx j)))" and "inj_on idx (set xs)" and "distinct xs"
  shows "fold step xs f k = (if k \<in> idx ` set xs then g (f k) else f k)"
  using assms(2,3)
proof (induction xs arbitrary: f)
  case Nil
  show ?case by simp
next
  case (Cons x xs)
  from Cons.prems have inj: "inj_on idx (set xs)" and d: "distinct xs"
    and nx: "idx x \<notin> idx ` set xs"
    by (auto simp: inj_on_def)
  have "fold step (x # xs) f k = fold step xs (f(idx x := g (f (idx x)))) k"
    by (simp add: assms(1))
  also have "\<dots> = (if k \<in> idx ` set xs then g ((f(idx x := g (f (idx x)))) k)
                     else (f(idx x := g (f (idx x)))) k)"
    by (rule Cons.IH [OF inj d])
  also have "\<dots> = (if k \<in> idx ` set (x # xs) then g (f k) else f k)"
    using nx by auto
  finally show ?case .
qed

lemma scan_fold:
  "fold (region_scan_step c rs i) [0..<m] (0, p) =
     (Max (insert 0 ((\<lambda>j. survivors c p (i * rs + j)) ` {..<m})),
      \<lambda>k. if i * rs \<le> k \<and> k < i * rs + m then survivors c p k else p k)"
proof (induction m)
  case 0
  show ?case by (simp add: fun_eq_iff)
next
  case (Suc m)
  define H where "H = Max (insert 0 ((\<lambda>j. survivors c p (i * rs + j)) ` {..<m}))"
  define P where "P = (\<lambda>k. if i * rs \<le> k \<and> k < i * rs + m then survivors c p k else p k)"
  have Pidx: "P (i * rs + m) = p (i * rs + m)" by (simp add: P_def)
  have snd_eq: "(if P (i * rs + m) \<le> c then P(i * rs + m := 0) else P)
          = (\<lambda>k. if i * rs \<le> k \<and> k < i * rs + Suc m then survivors c p k else p k)"
    by (auto simp: P_def survivors_def fun_eq_iff less_Suc_eq)
  have at: "(\<lambda>k. if i * rs \<le> k \<and> k < i * rs + Suc m then survivors c p k else p k) (i * rs + m)
              = survivors c p (i * rs + m)"
    by simp
  have fin: "finite (insert 0 ((\<lambda>j. survivors c p (i * rs + j)) ` {..<m}))" by simp
  have "Max (insert 0 ((\<lambda>j. survivors c p (i * rs + j)) ` {..<Suc m}))
          = Max (insert (survivors c p (i * rs + m)) (insert 0 ((\<lambda>j. survivors c p (i * rs + j)) ` {..<m})))"
    by (simp add: lessThan_Suc insert_commute)
  also have "\<dots> = max (survivors c p (i * rs + m)) H"
    unfolding H_def by (rule Max_insert [OF fin]) simp
  finally have mx: "Max (insert 0 ((\<lambda>j. survivors c p (i * rs + j)) ` {..<Suc m}))
          = max (survivors c p (i * rs + m)) H" .
  have "fold (region_scan_step c rs i) [0..<Suc m] (0, p) = region_scan_step c rs i m (H, P)"
    unfolding fold_upt_Suc Suc H_def P_def ..
  also have "\<dots> = (max (survivors c p (i * rs + m)) H,
                    \<lambda>k. if i * rs \<le> k \<and> k < i * rs + Suc m then survivors c p k else p k)"
    unfolding region_scan_step_def Let_def fst_conv snd_conv snd_eq at
    by (simp add: max_def)
  finally show ?case by (simp only: mx)
qed

lemma region_step_eq:
  "region_step c rs i p k =
    (if i * rs \<le> k \<and> k < i * rs + rs
     then (if region_max c rs i p = 0 then survivors c p k
           else survivors c p k * (50 / region_max c rs i p))
     else p k)"
proof -
  define P where "P = (\<lambda>k. if i * rs \<le> k \<and> k < i * rs + rs then survivors c p k else p k)"
  define H where "H = region_max c rs i p"
  have st: "fold (region_scan_step c rs i) [0..<rs] (0, p) = (H, P)"
    by (simp add: scan_fold H_def P_def region_max_def)
  have img: "k \<in> (\<lambda>j. i * rs + j) ` set [0..<rs] \<longleftrightarrow> i * rs \<le> k \<and> k < i * rs + rs"
  proof
    assume "k \<in> (\<lambda>j. i * rs + j) ` set [0..<rs]"
    then show "i * rs \<le> k \<and> k < i * rs + rs" by auto
  next
    assume a: "i * rs \<le> k \<and> k < i * rs + rs"
    then have "k = i * rs + (k - i * rs)" "k - i * rs < rs" by arith+
    then show "k \<in> (\<lambda>j. i * rs + j) ` set [0..<rs]"
      by (intro image_eqI [where x = "k - i * rs"]) simp_all
  qed
  have step: "region_scale_step n rs i j f = f(i * rs + j := (\<lambda>v. if v \<noteq> 0 then v * n else v) (f (i * rs + j)))"
    for n j f
    by (simp add: region_scale_step_def Let_def fun_eq_iff)
  have scale: "fold (region_scale_step n rs i) [0..<rs] P k
                 = (if i * rs \<le> k \<and> k < i * rs + rs then (if P k \<noteq> 0 then P k * n else P k) else P k)" for n
    using fold_pointwise_idx [of "region_scale_step n rs i" "\<lambda>j. i * rs + j"
              "\<lambda>v. if v \<noteq> 0 then v * n else v" "[0..<rs]" P k, OF step]
    by (simp add: img inj_on_def)
  have "region_step c rs i p k
          = (if H = 0 then P k else fold (region_scale_step (50 / H) rs i) [0..<rs] P k)"
    unfolding region_step_def Let_def st fst_conv snd_conv by simp
  also have "\<dots> = (if i * rs \<le> k \<and> k < i * rs + rs
                     then (if H = 0 then survivors c p k else survivors c p k * (50 / H))
                     else p k)"
    unfolding scale by (simp add: P_def)
  finally show ?thesis
    by (simp only: H_def)
qed

lemma region_max_cong:
  assumes "\<And>k. i * rs \<le> k \<Longrightarrow> k < i * rs + rs \<Longrightarrow> p k = q k"
  shows "region_max c rs i p = region_max c rs i q"
proof -
  have "(\<lambda>j. survivors c p (i * rs + j)) ` {..<rs} = (\<lambda>j. survivors c q (i * rs + j)) ` {..<rs}"
    by (rule image_cong) (simp_all add: survivors_def assms)
  then show ?thesis by (simp add: region_max_def)
qed

lemma regions_fold:
  "fold (region_step c rs) [0..<n] p k =
     (if k < n * rs then region_step c rs (k div rs) p k else p k)"
proof (induction n arbitrary: k)
  case 0
  show ?case by simp
next
  case (Suc n)
  define F where "F = fold (region_step c rs) [0..<n] p"
  have F: "F k = (if k < n * rs then region_step c rs (k div rs) p k else p k)" for k
    unfolding F_def by (rule Suc.IH)
  have unf: "fold (region_step c rs) [0..<Suc n] p k = region_step c rs n F k"
    by (simp only: fold_upt_Suc F_def)
  show ?case
  proof (cases "n * rs \<le> k \<and> k < n * rs + rs")
    case True
    then have "0 < rs" by arith
    have agree: "F k' = p k'" if "n * rs \<le> k'" for k'
      using that by (simp add: F)
    have mx: "region_max c rs n F = region_max c rs n p"
      by (rule region_max_cong) (simp add: agree)
    have sv: "survivors c F k = survivors c p k"
      using True by (simp add: survivors_def agree)
    have "region_step c rs n F k = region_step c rs n p k"
      using True by (simp add: region_step_eq mx sv)
    moreover have "k div rs = n"
    proof (rule div_nat_eqI)
      show "rs * n \<le> k" using True by (simp add: mult.commute)
      show "k < rs * Suc n" using True by (simp add: mult.commute)
    qed
    moreover have "k < Suc n * rs" using True by simp
    ultimately show ?thesis unfolding unf by simp
  next
    case False
    then have out: "region_step c rs n F k = F k"
      by (auto simp: region_step_eq)
    from False have "k < n * rs \<or> Suc n * rs \<le> k" by auto
    then show ?thesis
    proof
      assume "k < n * rs"
      then show ?thesis unfolding unf out by (simp add: F)
    next
      assume "Suc n * rs \<le> k"
      then have "\<not> k < Suc n * rs" "\<not> k < n * rs" by simp_all
      then show ?thesis unfolding unf out by (simp add: F)
    qed
  qed
qed

lemma region_max_props:
  "0 \<le> region_max c rs i p"
  "j < rs \<Longrightarrow> survivors c p (i * rs + j) \<le> region_max c rs i p"
  "region_max c rs i p \<noteq> 0 \<Longrightarrow> \<exists>j<rs. region_max c rs i p = survivors c p (i * rs + j)"
proof -
  let ?S = "insert 0 ((\<lambda>j. survivors c p (i * rs + j)) ` {..<rs})"
  have fin: "finite ?S" by simp
  show "0 \<le> region_max c rs i p"
    unfolding region_max_def by (rule Max_ge [OF fin]) simp
  show "survivors c p (i * rs + j) \<le> region_max c rs i p" if "j < rs"
    unfolding region_max_def using that by (intro Max_ge [OF fin]) simp
  have "Max ?S \<in> ?S" by (rule Max_in [OF fin]) simp
  then show "\<exists>j<rs. region_max c rs i p = survivors c p (i * rs + j)" if "region_max c rs i p \<noteq> 0"
    using that unfolding region_max_def by auto
qed

lemma regions_props:
  fixes p :: "nat \<Rightarrow> real" and rs :: nat
  assumes c0: "0 \<le> c" and rN: "r < N"
  defines "out \<equiv> fold (region_step c rs) [0..<N] p"
  shows "(\<forall>j<rs. p (r * rs + j) \<le> c \<longrightarrow> out (r * rs + j) = 0)
       \<and> ((\<exists>j<rs. c < p (r * rs + j)) \<longrightarrow>
            (\<exists>n>0. \<forall>j<rs. c < p (r * rs + j) \<longrightarrow> out (r * rs + j) = p (r * rs + j) * n)
          \<and> (\<forall>j<rs. out (r * rs + j) \<le> 50)
          \<and> (\<exists>j<rs. out (r * rs + j) = 50))"
proof -
  define M where "M = region_max c rs r p"
  have out: "out (r * rs + j) = (if M = 0 then survivors c p (r * rs + j)
                                 else survivors c p (r * rs + j) * (50 / M))" if "j < rs" for j
  proof -
    have "r * rs + j < r * rs + rs" using that by simp
    also have "\<dots> = Suc r * rs" by simp
    also have "\<dots> \<le> N * rs"
      using rN by (intro mult_le_mono1) simp
    finally have lt: "r * rs + j < N * rs" .
    have dv: "(r * rs + j) div rs = r" using that by simp
    have "out (r * rs + j) = region_step c rs r p (r * rs + j)"
      unfolding out_def regions_fold using lt dv by simp
    also have "\<dots> = (if M = 0 then survivors c p (r * rs + j)
                      else survivors c p (r * rs + j) * (50 / M))"
      unfolding region_step_eq M_def using that by simp
    finally show ?thesis .
  qed
  have Mge: "survivors c p (r * rs + j) \<le> M" if "j < rs" for j
    unfolding M_def using that by (rule region_max_props(2))
  have Mex: "\<exists>j<rs. M = survivors c p (r * rs + j)" if "M \<noteq> 0"
    using that unfolding M_def by (rule region_max_props(3))
  have first: "\<forall>j<rs. p (r * rs + j) \<le> c \<longrightarrow> out (r * rs + j) = 0"
    by (simp add: out survivors_def)
  have second: "(\<exists>n>0. \<forall>j<rs. c < p (r * rs + j) \<longrightarrow> out (r * rs + j) = p (r * rs + j) * n)
          \<and> (\<forall>j<rs. out (r * rs + j) \<le> 50)
          \<and> (\<exists>j<rs. out (r * rs + j) = 50)"
    if ex: "\<exists>j<rs. c < p (r * rs + j)"
  proof -
    from ex obtain j0 where j0: "j0 < rs" "c < p (r * rs + j0)" by blast
    then have "0 < survivors c p (r * rs + j0)"
      using c0 by (simp add: survivors_def)
    with Mge [OF j0(1)] have Mpos: "0 < M" by linarith
    then have n: "0 < 50 / M" by simp
    have a: "\<forall>j<rs. c < p (r * rs + j) \<longrightarrow> out (r * rs + j) = p (r * rs + j) * (50 / M)"
      using Mpos by (simp add: out survivors_def)
    have b: "\<forall>j<rs. out (r * rs + j) \<le> 50"
    proof (intro allI impI)
      fix j assume j: "j < rs"
      have "survivors c p (r * rs + j) * (50 / M) \<le> M * (50 / M)"
        using Mge [OF j] n by (intro mult_right_mono) simp_all
      also have "\<dots> = 50" using Mpos by simp
      finally have "survivors c p (r * rs + j) * (50 / M) \<le> 50" .
      then show "out (r * rs + j) \<le> 50" using Mpos j by (simp only: out) simp
    qed
    from Mex Mpos obtain j1 where j1: "j1 < rs" "M = survivors c p (r * rs + j1)" by auto
    have "out (r * rs + j1) = M * (50 / M)" using Mpos j1 by (simp only: out) simp
    then have "out (r * rs + j1) = 50" using Mpos by simp
    with j1(1) have c: "\<exists>j<rs. out (r * rs + j) = 50" by blast
    from n a b c show ?thesis by blast
  qed
  from first second show ?thesis by blast
qed

text \<open>
  Claim C3, as amended. The bins are partitioned into \<^verbatim>\<open>NUM_SPECTRUM_REGIONS\<close> contiguous
  regions of \<open>largest_mz / NUM_SPECTRUM_REGIONS + 1\<close> bins. Within each region every
  intensity that is at most 5% of the maximum of the whole spectrum (the global
  \<^verbatim>\<open>highest_intensity\<close>) is zeroed; and a region that keeps an intensity is rescaled by one
  positive factor so that its local maximum equals 50 (a region that keeps none stays zero).
\<close>

theorem NormalizeEachRegion_regions:
  fixes largest :: nat and peaks :: "nat \<Rightarrow> real"
  assumes "0 \<le> highest" and "r < NUM_SPECTRUM_REGIONS h"
  defines "cutoff \<equiv> highest * (5 / 100)"
    and "rs \<equiv> largest div NUM_SPECTRUM_REGIONS h + 1"
    and "out \<equiv> NormalizeEachRegion h highest largest peaks"
  shows "(\<forall>j<rs. peaks (r * rs + j) \<le> cutoff \<longrightarrow> out (r * rs + j) = 0)
       \<and> ((\<exists>j<rs. cutoff < peaks (r * rs + j)) \<longrightarrow>
            (\<exists>n>0. \<forall>j<rs. cutoff < peaks (r * rs + j) \<longrightarrow> out (r * rs + j) = peaks (r * rs + j) * n)
          \<and> (\<forall>j<rs. out (r * rs + j) \<le> 50)
          \<and> (\<exists>j<rs. out (r * rs + j) = 50))"
proof -
  have c0: "0 \<le> highest * (5 / 100)" using assms(1) by simp
  show ?thesis
    unfolding out_def cutoff_def rs_def NormalizeEachRegion_def Let_def
    by (rule regions_props [OF c0 assms(2)])
qed

lemma sqrt_1600: "sqrt 1600 = 40"
  by (rule real_sqrt_unique) simp_all

lemma sqrt_quarter: "sqrt (1/4) = 1/2"
  by (rule real_sqrt_unique) (simp_all add: power2_eq_square)

lemma three_peaks_filled_eq:
  "highest_intensity three_peaks_filled = 40 \<and> largest_mz three_peaks_filled = 19
   \<and> fs_peaks three_peaks_filled = (\<lambda>_. 0)(19 := 1/2, 18 := 1, 0 := 40)
   \<and> fs_counters three_peaks_filled = no_counts\<lparr>num_retained := 3\<rparr>"
  by (simp add: three_peaks_filled_def fill_def fill_step_def three_peaks_def plain_params_def
        example_headers_def experimental_mass_cut_off_def is_isotopic_peak_def Let_def
        sqrt_1600 sqrt_quarter no_counts_def)

lemma lessThan_2: "{..<(2::nat)} = {0, 1}"
  by auto

lemma NormalizeEachRegion_example:
  "NormalizeEachRegion example_headers 40 19 p = fold (region_step 2 2) [0..<10] p"
proof -
  have a: "(19::nat) div 10 + 1 = 2" and b: "(40::real) * (5 / 100) = 2" by simp_all
  show ?thesis
    unfolding NormalizeEachRegion_def Let_def example_headers_def headers.simps a b ..
qed

theorem NormalizeEachRegion_regions_witness:
  "(0::real) \<le> 40 \<and> 0 < NUM_SPECTRUM_REGIONS example_headers
   \<and> NormalizeEachRegion example_headers 40 19 ((\<lambda>_. 0)(19 := 1/2, 18 := 1, 0 := 40)) 0 \<le> 50"
proof -
  let ?p = "(\<lambda>_. 0)(19 := 1/2, 18 := 1, 0 := 40) :: nat \<Rightarrow> real"
  have h1: "(0::real) \<le> 40" by simp
  have h2: "0 < NUM_SPECTRUM_REGIONS example_headers" by (simp add: example_headers_def)
  note t = NormalizeEachRegion_regions [where highest = 40 and r = 0 and h = example_headers
              and largest = 19 and peaks = ?p, OF h1 h2]
  have rs: "19 div NUM_SPECTRUM_REGIONS example_headers + 1 = 2" by (simp add: example_headers_def)
  have ex: "\<exists>j<2. (40::real) * (5 / 100) < ?p (0 * 2 + j)"
    by (intro exI [of _ 0]) simp
  from t [unfolded rs] ex
  have "\<forall>j<2. NormalizeEachRegion example_headers 40 19 ?p (0 * 2 + j) \<le> 50" by blast
  then have "NormalizeEachRegion example_headers 40 19 ?p (0 * 2 + 0) \<le> 50" by simp
  with h1 h2 show ?thesis by simp
qed

text \<open>
  Claim C3 as stated fails on the spectrum \<open>three_peaks\<close>. Its last region holds the bins 18
  and 19, with the values 1 and 1/2 after the filling loop: neither is below 5% of the local
  maximum 1, yet both are zeroed, being below 5% of the global maximum 40, and the local
  maximum of the region is 0 afterwards, not 50.
\<close>

theorem NormalizeEachRegion_local_counterexample:
  "highest_intensity three_peaks_filled = 40 \<and> largest_mz three_peaks_filled = 19
   \<and> fs_peaks three_peaks_filled 18 = 1 \<and> fs_peaks three_peaks_filled 19 = 1/2
   \<and> \<not> fs_peaks three_peaks_filled 19
         < 5 / 100 * max (fs_peaks three_peaks_filled 18) (fs_peaks three_peaks_filled 19)
   \<and> NormalizeEachRegion example_headers (highest_intensity three_peaks_filled)
         (largest_mz three_peaks_filled) (fs_peaks three_peaks_filled) 18 = 0
   \<and> NormalizeEachRegion example_headers (highest_intensity three_peaks_filled)
         (largest_mz three_peaks_filled) (fs_peaks three_peaks_filled) 19 = 0"
  unfolding three_peaks_filled_eq [THEN conjunct1]
    three_peaks_filled_eq [THEN conjunct2, THEN conjunct1]
    three_peaks_filled_eq [THEN conjunct2, THEN conjunct2, THEN conjunct1]
    NormalizeEachRegion_example regions_fold region_step_eq
  by (simp add: survivors_def)

subsection \<open>The skip-preprocessing branch\<close>

lemma Max_insert_max:
  assumes "finite A"
  shows "Max (insert (max a b) A) = Max (insert a (insert b A))"
proof (cases "A = {}")
  case True
  then show ?thesis by (simp add: max.commute)
next
  case False
  with assms show ?thesis by (simp add: max.assoc)
qed

lemma skip_fill_bucket_max:
  "skip_fill h c pks init = bucket_max h c pks init"
proof (induction pks arbitrary: init)
  case Nil
  show ?case by (simp add: skip_fill_def bucket_max_def fun_eq_iff)
next
  case (Cons pk pks)
  have unf: "skip_fill h c (pk # pks) init = skip_fill h c pks (skip_step h c pk init)"
    by (simp add: skip_fill_def)
  show ?case
  proof (rule ext)
    fix k
    let ?S = "snd ` {q \<in> set pks. fst q < c \<and> mass2bin h (fst q) = k}"
    have fin: "finite ?S" by simp
    have IH: "skip_fill h c pks (skip_step h c pk init) k = Max (insert (skip_step h c pk init k) ?S)"
      by (simp add: Cons.IH bucket_max_def)
    show "skip_fill h c (pk # pks) init k = bucket_max h c (pk # pks) init k"
    proof (cases "fst pk < c \<and> mass2bin h (fst pk) = k")
      case True
      then have st: "skip_step h c pk init k = max (init k) (snd pk)"
        by (auto simp: skip_step_def Let_def max_def)
      from True have set_eq: "snd ` {q \<in> set (pk # pks). fst q < c \<and> mass2bin h (fst q) = k} = insert (snd pk) ?S"
        by auto
      show ?thesis
        unfolding unf IH st bucket_max_def set_eq by (rule Max_insert_max [OF fin])
    next
      case False
      then have st: "skip_step h c pk init k = init k"
        by (auto simp: skip_step_def Let_def)
      from False have set_eq: "snd ` {q \<in> set (pk # pks). fst q < c \<and> mass2bin h (fst q) = k} = ?S"
        by auto
      show ?thesis
        unfolding unf IH st bucket_max_def set_eq ..
    qed
  qed
qed

lemma for_loop_guarded:
  assumes "\<And>i s. body i s = (if ok i then Inr (g i s) else Inl e)"
  shows "for_loop xs body s = (if \<forall>i\<in>set xs. ok i then Inr (fold g xs s) else Inl e)"
  by (induction xs arbitrary: s) (simp_all add: assms)

lemma MakeInteger_step_eq:
  "MakeInteger_step peaks i cache =
     (if fits_int (round_half (peaks i * 50000))
      then Inr (set_Peak PeakMain i (word_of_int (round_half (peaks i * 50000))) cache)
      else Inl (UNDEFINED_BEHAVIOUR ''double to int out of range''))"
  by (simp add: MakeInteger_step_def round_to_int_def Let_def fits_int_def round_half_def)

lemma MakeInteger_eq:
  "MakeInteger obs =
     (if \<forall>i<bbe obs. fits_int (round_half (ops_peaks obs i * 50000))
      then Inr (obs\<lparr>ops_cache :=
                  fold (\<lambda>i. set_Peak PeakMain i (word_of_int (round_half (ops_peaks obs i * 50000))))
                    [0..<bbe obs] (ops_cache obs)\<rparr>)
      else Inl (UNDEFINED_BEHAVIOUR ''double to int out of range''))"
  unfolding MakeInteger_def
    for_loop_guarded [of "MakeInteger_step (ops_peaks obs)"
       "\<lambda>i. fits_int (round_half (ops_peaks obs i * 50000))"
       "\<lambda>i. set_Peak PeakMain i (word_of_int (round_half (ops_peaks obs i * 50000)))"
       "UNDEFINED_BEHAVIOUR ''double to int out of range''", OF MakeInteger_step_eq]
  by simp

text \<open>
  Claim C4, as amended. When \<^verbatim>\<open>skip-preprocessing\<close> is enabled, \<^verbatim>\<open>PreprocessSpectrum\<close> on a
  spectrum with at least one peak removes no precursor peak, deisotopes nothing, takes no
  square root, normalises no region and changes no counter: each bin receives the largest
  raw intensity of the peaks of that bin that lie below the mass cutoff (the peaks at or
  above the cutoff are still dropped). Background subtraction then runs on these bins as in
  the other mode. If 50000 times the value of every bin below the background end, rounded
  half away from zero, is a value of the type \<^verbatim>\<open>int\<close>, the base cells of the cache receive
  these integers and \<^verbatim>\<open>ComputeCache\<close> derives the other cells from them; otherwise the
  conversion to \<^verbatim>\<open>int\<close> is undefined and the call has no defined result.
\<close>

theorem PreprocessSpectrum_skip:
  assumes "skip_preprocessing p" and "Peaks spec \<noteq> []"
  shows "PreprocessSpectrum h p spec charge cnt obs =
     (let cut_off = experimental_mass_cut_off h spec charge;
          ends = InitBin h (min cut_off (fst (last (Peaks spec))));
          cleared = (\<lambda>i. if i < GlobalBackgroundBinEnd h then 0 else ops_peaks obs i);
          peaks = SubtractBackground h (bucket_max h cut_off (Peaks spec) cleared) (fst ends)
      in if \<forall>i<fst ends. fits_int (round_half (peaks i * 50000))
         then Inr (ComputeCache h
                (obs\<lparr> bbe := fst ends, cbe := snd ends,
                      ops_cache_end := GlobalCacheBinEnd h * NUM_PEAK_TYPES,
                      ops_peaks := peaks,
                      ops_cache := fold (\<lambda>i. set_Peak PeakMain i (word_of_int (round_half (peaks i * 50000))))
                                     [0..<fst ends] (ops_cache obs) \<rparr>),
              cnt)
         else Inl (UNDEFINED_BEHAVIOUR ''double to int out of range''))"
  using assms by (simp add: PreprocessSpectrum_def Let_def skip_fill_bucket_max MakeInteger_eq)


lemma MakeInteger_loop:
  "Peak (fold (\<lambda>i. set_Peak PeakMain i (v i)) [0..<n] c) t j
     = (if t = PeakMain \<and> j < n then v j else Peak c t j)"
proof (induction n)
  case 0
  show ?case by simp
next
  case (Suc n)
  show ?case
    by (simp only: fold_upt_Suc Peak_set_Peak Suc) (auto simp: less_Suc_eq)
qed

lemma ComputeCache_cells:
  assumes "i < bbe obs"
  shows "Peak (ops_cache (ComputeCache h obs)) PeakMain i = Peak (ops_cache obs) PeakMain i"
    and "Peak (ops_cache (ComputeCache h obs)) PrimaryPeak i = 10 * Peak (ops_cache obs) PeakMain i"
proof -
  have "\<not> combined PeakMain" "\<not> combined PrimaryPeak" by (simp_all add: combined_def)
  then show "Peak (ops_cache (ComputeCache h obs)) PeakMain i = Peak (ops_cache obs) PeakMain i"
    and "Peak (ops_cache (ComputeCache h obs)) PrimaryPeak i = 10 * Peak (ops_cache obs) PeakMain i"
    using assms
    by (simp_all add: ComputeCache_def Let_def combine_loop_frame zero_range_Peak multiples_loop)
qed

lemma ComputeCache_fields:
  "ops_peaks (ComputeCache h obs) = ops_peaks obs" "bbe (ComputeCache h obs) = bbe obs"
  by (simp_all add: ComputeCache_def Let_def)

lemma atMost_vals:
  "{..(0::nat)} = {0}" "{..(1::nat)} = {0, 1}" "{..(2::nat)} = {0, 1, 2}" "{..(3::nat)} = {0, 1, 2, 3}"
  "{..<(4::nat)} = {0, 1, 2, 3}"
  by auto

lemma all_less_4: "(\<forall>i<(4::nat). P i) \<longleftrightarrow> P 0 \<and> P 1 \<and> P 2 \<and> P 3"
proof -
  have "\<And>i::nat. i < 4 \<longleftrightarrow> i = 0 \<or> i = 1 \<or> i = 2 \<or> i = 3" by arith
  then show ?thesis by auto
qed

lemma one_peak_cut_off:
  "experimental_mass_cut_off example_headers (single_peak\<lparr> Peaks := pks \<rparr>) 1 = 550"
  by (simp add: experimental_mass_cut_off_def example_headers_def single_peak_def)

lemma one_peak_ends:
  "InitBin example_headers (5/2) = (4, 5)"
  "GlobalBackgroundBinEnd example_headers = 24"
  "GlobalCacheBinEnd example_headers * NUM_PEAK_TYPES = 200"
  by (simp_all add: example_headers_def NUM_PEAK_TYPES_def)

lemma one_peak_bins:
  assumes "0 < v"
  shows "skip_fill example_headers 550 [(5/2, v)] (\<lambda>i. if i < 24 then 0 else ops_peaks obs_zero i)
           = (\<lambda>_. 0)(2 := v)"
  using assms
  by (simp add: skip_fill_def skip_step_def example_headers_def Let_def fun_eq_iff obs_zero_def)

lemma one_peak_background:
  "SubtractBackground example_headers ((\<lambda>_. 0)(2 := v)) 4 = one_peak_subtracted v"
proof (rule ext)
  fix i :: nat
  consider "i = 0" | "i = 1" | "i = 2" | "i = 3" | "4 \<le> i" by arith
  then show "SubtractBackground example_headers ((\<lambda>_. 0)(2 := v)) 4 i = one_peak_subtracted v i"
    by cases (simp_all add: SubtractBackground_eq partial_sums_eq example_headers_def atMost_vals
                one_peak_subtracted_def)
qed

lemma one_peak_run:
  assumes "0 < v"
  shows "PreprocessSpectrum example_headers skip_params (single_peak\<lparr> Peaks := [(5/2, v)] \<rparr>) 1
           no_counts obs_zero =
     (if \<forall>i<4. fits_int (round_half (one_peak_subtracted v i * 50000))
      then Inr (ComputeCache example_headers
             (obs_zero\<lparr> bbe := 4, cbe := 5, ops_cache_end := 200,
                ops_peaks := one_peak_subtracted v,
                ops_cache := fold (\<lambda>i. set_Peak PeakMain i
                                 (word_of_int (round_half (one_peak_subtracted v i * 50000))))
                               [0..<4] (ops_cache obs_zero) \<rparr>),
           no_counts)
      else Inl (UNDEFINED_BEHAVIOUR ''double to int out of range''))"
proof -
  have a: "skip_preprocessing skip_params" by (simp add: skip_params_def plain_params_def)
  have f: "Peaks (single_peak\<lparr> Peaks := [(5/2, v)] \<rparr>) = [(5/2, v)]"
    by simp
  show ?thesis
    using a
    by (simp add: PreprocessSpectrum_def Let_def one_peak_cut_off one_peak_ends f
          one_peak_bins [OF assms] one_peak_background MakeInteger_eq)
qed

lemma single_peak_values:
  "round_half (one_peak_subtracted 150 i * 50000) = (if i = 2 then 7500000 else if i < 4 then - 50000 else 0)"
  by (simp add: round_half_def one_peak_subtracted_def)

lemma huge_peak_overflow:
  "(\<forall>i<4. fits_int (round_half (one_peak_subtracted 50000 i * 50000))) = False"
proof -
  have "\<not> fits_int (round_half (one_peak_subtracted 50000 2 * 50000))"
    by (simp add: round_half_def one_peak_subtracted_def fits_int_def)
  moreover have "(2::nat) < 4" by simp
  ultimately show ?thesis by blast
qed

theorem PreprocessSpectrum_skip_witness:
  "skip_preprocessing skip_params \<and> Peaks single_peak \<noteq> []
   \<and> (case PreprocessSpectrum example_headers skip_params single_peak 1 no_counts obs_zero of
        Inl e \<Rightarrow> None
      | Inr r \<Rightarrow> Some (bbe (fst r), ops_peaks (fst r) 2, Peak (ops_cache (fst r)) PeakMain 2, snd r))
       = Some (4, 150, 7500000, no_counts)
   \<and> Peaks huge_peak \<noteq> []
   \<and> PreprocessSpectrum example_headers skip_params huge_peak 1 no_counts obs_zero
       = Inl (UNDEFINED_BEHAVIOUR ''double to int out of range'')"
proof -
  have a: "skip_preprocessing skip_params" by (simp add: skip_params_def plain_params_def)
  have b: "Peaks single_peak \<noteq> []" "Peaks huge_peak \<noteq> []"
    by (simp_all add: single_peak_def huge_peak_def)
  have s: "single_peak = single_peak\<lparr> Peaks := [(5/2, 150)] \<rparr>"
    by (simp add: single_peak_def)
  have pk: "Peaks huge_peak = [(5/2, 50000)]" "Peaks single_peak = [(5/2, 150)]"
    by (simp_all add: huge_peak_def single_peak_def)
  have c: "experimental_mass_cut_off example_headers single_peak 1 = 550"
    "experimental_mass_cut_off example_headers huge_peak 1 = 550"
    using one_peak_cut_off [of "[(5/2, 150)]"] one_peak_cut_off [of "[(5/2, 50000)]"]
    by (simp_all add: s [symmetric] huge_peak_def)
  have fits: "fits_int 7500000" "fits_int (- 50000)"
    by (simp_all add: fits_int_def)
  have v: "(0::real) < 150" "(0::real) < 50000" by simp_all
  have p: "one_peak_subtracted 150 2 = 150"
    by (simp add: one_peak_subtracted_def)
  have one: "(case PreprocessSpectrum example_headers skip_params single_peak 1 no_counts obs_zero of
        Inl e \<Rightarrow> None
      | Inr r \<Rightarrow> Some (bbe (fst r), ops_peaks (fst r) 2, Peak (ops_cache (fst r)) PeakMain 2, snd r))
       = Some (4, 150, 7500000, no_counts)"
    using PreprocessSpectrum_skip [OF a b(1), of example_headers 1 no_counts obs_zero]
    by (simp add: Let_def c pk one_peak_ends skip_fill_bucket_max [symmetric] one_peak_bins [OF v(1)]
          one_peak_background single_peak_values fits ComputeCache_fields ComputeCache_cells
          MakeInteger_loop p)
  have two: "PreprocessSpectrum example_headers skip_params huge_peak 1 no_counts obs_zero
       = Inl (UNDEFINED_BEHAVIOUR ''double to int out of range'')"
    using PreprocessSpectrum_skip [OF a b(2), of example_headers 1 no_counts obs_zero]
    by (simp add: Let_def c pk one_peak_ends skip_fill_bucket_max [symmetric] one_peak_bins [OF v(2)]
          one_peak_background huge_peak_overflow)
  from a b one two show ?thesis by simp
qed

text \<open>
  Claim C4 as stated fails on the spectrum \<open>single_peak\<close> (one peak of intensity 150 in bin
  2): the background is subtracted, so that bin 0, which receives no peak, holds \<open>-1\<close> and
  its base cell of the cache \<open>-50000\<close>; and the base cell of bin 2 holds 7500000, the
  quantised value, not the raw maximum 150.
\<close>

theorem PreprocessSpectrum_skip_counterexample:
  "(case PreprocessSpectrum example_headers skip_params single_peak 1 no_counts obs_zero of
      Inl e \<Rightarrow> None
    | Inr r \<Rightarrow> Some (ops_peaks (fst r) 0, Peak (ops_cache (fst r)) PeakMain 0,
                      Peak (ops_cache (fst r)) PeakMain 2))
   = Some (- 1, - 50000, 7500000)"
proof -
  have s: "single_peak = single_peak\<lparr> Peaks := [(5/2, 150)] \<rparr>"
    by (simp add: single_peak_def)
  have v: "(0::real) < 150" by simp
  have fits: "fits_int 7500000" "fits_int (- 50000)"
    by (simp_all add: fits_int_def)
  have p: "one_peak_subtracted 150 0 = - 1"
    by (simp add: one_peak_subtracted_def)
  show ?thesis
    by (subst s, simp add: one_peak_run [OF v] fits ComputeCache_fields ComputeCache_cells
          MakeInteger_loop single_peak_values p)
qed


lemma strong_peak_values:
  "round_half (one_peak_subtracted 4500 i * 50000) = (if i = 2 then 225000000 else if i < 4 then - 1500000 else 0)"
  by (simp add: round_half_def one_peak_subtracted_def)

text \<open>
  Claim C10 as stated fails on the spectrum \<open>strong_peak\<close> (one peak of intensity 4500 in bin
  2) in the \<^verbatim>\<open>skip-preprocessing\<close> mode: the base cell of bin 2 holds 225000000, and ten
  times this value is no value of the type \<^verbatim>\<open>int\<close>; the cell \<open>PrimaryPeak\<close> of the bin holds
  \<open>-2044967296\<close>, which is \<open>2250000000 - 2^32\<close>.
\<close>

theorem ComputeCache_multiples_counterexample:
  "(case PreprocessSpectrum example_headers skip_params strong_peak 1 no_counts obs_zero of
      Inl e \<Rightarrow> None
    | Inr r \<Rightarrow> Some (sint (Peak (ops_cache (fst r)) PeakMain 2),
                      sint (Peak (ops_cache (fst r)) PrimaryPeak 2)))
   = Some (225000000, - 2044967296)"
proof -
  have v: "(0::real) < 4500" by simp
  have fits: "fits_int 225000000" "fits_int (- 1500000)"
    by (simp_all add: fits_int_def)
  show ?thesis
    unfolding strong_peak_def
    by (simp add: one_peak_run [OF v] fits ComputeCache_fields ComputeCache_cells
          MakeInteger_loop strong_peak_values)
qed

subsection \<open>The mass cutoff\<close>

lemma fits_round:
  assumes "\<bar>x\<bar> \<le> 2000000000"
  shows "fits_int (round_half x)"
proof (cases "0 \<le> x")
  case True
  with assms have "0 \<le> x + 1/2" "x + 1/2 < 2147483648" by simp_all
  then have "0 \<le> \<lfloor>x + 1/2\<rfloor>" "\<lfloor>x + 1/2\<rfloor> < 2147483648"
    by (simp_all add: floor_less_iff)
  with True show ?thesis by (simp add: fits_int_def round_half_def)
next
  case False
  with assms have "x - 1/2 \<le> 0" "- 2147483649 < x - 1/2" by simp_all
  then have "\<lceil>x - 1/2\<rceil> \<le> 0" "- 2147483649 < \<lceil>x - 1/2\<rceil>"
    by (simp_all add: ceiling_le_iff less_ceiling_iff)
  with False show ?thesis by (simp add: fits_int_def round_half_def)
qed

lemma MakeInteger_bounded:
  assumes "\<forall>i<bbe obs. \<bar>ops_peaks obs i\<bar> \<le> 40000"
  shows "MakeInteger obs =
           Inr (obs\<lparr>ops_cache :=
                  fold (\<lambda>i. set_Peak PeakMain i (word_of_int (round_half (ops_peaks obs i * 50000))))
                    [0..<bbe obs] (ops_cache obs)\<rparr>)"
proof -
  have "fits_int (round_half (ops_peaks obs i * 50000))" if "i < bbe obs" for i
  proof (rule fits_round)
    from assms that have "\<bar>ops_peaks obs i\<bar> \<le> 40000" by simp
    then show "\<bar>ops_peaks obs i * 50000\<bar> \<le> 2000000000" by (simp add: abs_mult)
  qed
  then show ?thesis by (simp add: MakeInteger_eq)
qed

lemma partial_sums_bounds:
  assumes "\<forall>j. 0 \<le> observed j" and "(\<Sum>j<end. observed j) \<le> M"
  shows "0 \<le> partial_sums observed end k" and "partial_sums observed end k \<le> M"
proof -
  have nn: "0 \<le> (\<Sum>j\<in>A. observed j)" for A
    using assms(1) by (simp add: sum_nonneg)
  have le: "(\<Sum>j\<le>k. observed j) \<le> (\<Sum>j<end. observed j)" if "k < end"
    using that assms(1) by (intro sum_mono2) auto
  from nn [of "{..<end}"] assms(2) have "0 \<le> M" by simp
  with nn le assms(2) show "0 \<le> partial_sums observed end k" and "partial_sums observed end k \<le> M"
    by (auto simp: partial_sums_eq intro: order_trans)
qed

lemma SubtractBackground_bounded:
  assumes "0 < MAX_XCORR_OFFSET h" and "\<forall>j. 0 \<le> observed j" and "\<forall>j. observed j \<le> M"
    and "(\<Sum>j<end. observed j) \<le> M"
  shows "\<bar>SubtractBackground h observed end i\<bar> \<le> 2 * M"
proof -
  define m where "m = 1 / real (MAX_XCORR_OFFSET h * 2)"
  define d where "d = partial_sums observed end (min end (i + MAX_XCORR_OFFSET h))
                - partial_sums observed end (nat (max 0 (int i - int (MAX_XCORR_OFFSET h) - 1)))
                - observed i"
  have o: "0 \<le> observed i" "observed i \<le> M" using assms(2,3) by simp_all
  have "1 \<le> real (MAX_XCORR_OFFSET h)" using assms(1) by simp
  then have m: "0 \<le> m" "m \<le> 1/2"
    unfolding m_def by (simp_all add: field_simps)
  note ps = partial_sums_bounds [OF assms(2,4)]
  have d: "- (2 * M) \<le> d" "d \<le> M"
    using ps(1) [of "min end (i + MAX_XCORR_OFFSET h)"]
      ps(2) [of "min end (i + MAX_XCORR_OFFSET h)"]
      ps(1) [of "nat (max 0 (int i - int (MAX_XCORR_OFFSET h) - 1))"]
      ps(2) [of "nat (max 0 (int i - int (MAX_XCORR_OFFSET h) - 1))"] o
    unfolding d_def by linarith+
  then have "\<bar>d\<bar> \<le> 2 * M" using o by linarith
  have "\<bar>m * d\<bar> = m * \<bar>d\<bar>" using m(1) by (simp add: abs_mult)
  also have "\<dots> \<le> 1/2 * \<bar>d\<bar>" using m(2) by (intro mult_right_mono) simp_all
  also have "\<dots> \<le> M" using \<open>\<bar>d\<bar> \<le> 2 * M\<close> by simp
  finally have md: "\<bar>m * d\<bar> \<le> M" .
  have "SubtractBackground h observed end i = (if i < end then observed i - m * d else observed i)"
    by (simp only: SubtractBackground_eq m_def d_def)
  with md o show ?thesis by (simp split: if_splits)
qed


lemma spike_sum:
  fixes w :: real
  assumes "finite A"
  shows "(\<Sum>j\<in>A. ((\<lambda>_. 0)(b := w)) j) = (if b \<in> A then w else 0)"
proof -
  have "(\<Sum>j\<in>A. ((\<lambda>_. 0)(b := w)) j) = (\<Sum>j\<in>A. if j = b then w else 0)"
    by (intro sum.cong) simp_all
  also have "\<dots> = (if b \<in> A then w else 0)"
    using assms by (simp only: sum.delta)
  finally show ?thesis .
qed

lemma spike_bounded:
  assumes "0 < MAX_XCORR_OFFSET h" and "0 \<le> w" and "w \<le> 20000"
  shows "\<bar>SubtractBackground h ((\<lambda>_. 0)(b := w)) end i\<bar> \<le> 40000"
proof -
  have "\<bar>SubtractBackground h ((\<lambda>_. 0)(b := w)) end i\<bar> \<le> 2 * w"
    using assms(1,2) by (intro SubtractBackground_bounded) (simp_all add: spike_sum)
  with assms(3) show ?thesis by simp
qed

lemma spike_kept:
  assumes "0 < MAX_XCORR_OFFSET h" and "0 < b" and "b < end"
  shows "SubtractBackground h ((\<lambda>_. 0)(b := w)) end b = w"
proof -
  define l where "l = nat (max 0 (int b - int (MAX_XCORR_OFFSET h) - 1))"
  define r where "r = min end (b + MAX_XCORR_OFFSET h)"
  have l: "l < b" "l < end" using assms unfolding l_def by auto
  have r: "b \<le> r" "r \<le> end" using assms unfolding r_def by auto
  have pl: "partial_sums ((\<lambda>_. 0)(b := w)) end l = 0"
    using l by (simp add: partial_sums_eq spike_sum)
  have pr: "partial_sums ((\<lambda>_. 0)(b := w)) end r = w"
    using r assms(3) by (simp add: partial_sums_eq spike_sum)
  show ?thesis
    using assms(3) by (simp add: SubtractBackground_eq l_def [symmetric] r_def [symmetric] pl pr)
qed

lemma normalize_zero:
  "NormalizeEachRegion h 0 0 (\<lambda>_. 0) = (\<lambda>_. 0)"
  by (rule ext) (simp add: NormalizeEachRegion_def Let_def regions_fold region_step_eq survivors_def)

lemma normalize_spike:
  assumes "0 < v" and "0 < NUM_SPECTRUM_REGIONS h"
  shows "NormalizeEachRegion h (sqrt v) b ((\<lambda>_. 0)(b := sqrt v)) = (\<lambda>_. 0)(b := 50)"
proof (rule ext)
  fix k
  define N where "N = NUM_SPECTRUM_REGIONS h"
  define rs where "rs = b div N + 1"
  define c where "c = sqrt v * (5 / 100)"
  define p where "p = (\<lambda>_. 0::real)(b := sqrt v)"
  have sv: "0 < sqrt v" using assms(1) by simp
  then have c: "0 \<le> c" "c < sqrt v" by (simp_all add: c_def)
  have surv: "survivors c p j = (if j = b then sqrt v else 0)" for j
    using c by (simp add: survivors_def p_def)
  have "0 < N" using assms(2) by (simp add: N_def)
  then have "b < N * rs"
    unfolding rs_def using dividend_less_times_div [of N b] by (simp add: algebra_simps)
  have "0 < rs" by (simp add: rs_def)
  define i where "i = b div rs"
  have bi: "b = i * rs + b mod rs" "b mod rs < rs"
    using \<open>0 < rs\<close> by (simp_all add: i_def)
  have "survivors c p (i * rs + b mod rs) \<le> region_max c rs i p"
    by (rule region_max_props(2) [OF bi(2)])
  then have ge: "sqrt v \<le> region_max c rs i p"
    using bi(1) by (simp add: surv)
  with sv have ne: "region_max c rs i p \<noteq> 0" by linarith
  from region_max_props(3) [OF ne] obtain j where "region_max c rs i p = survivors c p (i * rs + j)"
    by blast
  with ne have rm: "region_max c rs i p = sqrt v"
    by (simp add: surv split: if_splits)
  have out: "NormalizeEachRegion h (sqrt v) b p k =
               (if k < N * rs then region_step c rs (k div rs) p k else p k)" for k
    by (simp only: NormalizeEachRegion_def Let_def regions_fold N_def rs_def c_def)
  have inreg: "k div rs * rs \<le> k \<and> k < k div rs * rs + rs" for k
    using \<open>0 < rs\<close> by (metis add.commute div_mult_mod_eq le_add2 mod_less_divisor nat_add_left_cancel_less)
  show "NormalizeEachRegion h (sqrt v) b ((\<lambda>_. 0)(b := sqrt v)) k = ((\<lambda>_. 0)(b := 50)) k"
  proof (cases "k = b")
    case True
    then have "NormalizeEachRegion h (sqrt v) b p k = region_step c rs i p b"
      using \<open>b < N * rs\<close> by (simp add: out i_def)
    also have "\<dots> = survivors c p b * (50 / region_max c rs i p)"
    proof -
      have "i * rs \<le> b \<and> b < i * rs + rs"
        using inreg [of b] by (simp only: i_def)
      with ne show ?thesis by (simp only: region_step_eq if_True if_False simp_thms)
    qed
    also have "\<dots> = sqrt v * (50 / sqrt v)"
      by (simp only: rm surv if_True refl)
    also have "\<dots> = 50" using sv by simp
    finally show ?thesis using True by (simp add: p_def)
  next
    case False
    then have s0: "survivors c p k = 0" and p0: "p k = 0"
      by (simp add: surv, simp add: p_def)
    have "NormalizeEachRegion h (sqrt v) b p k = 0"
      using inreg [of k] by (simp add: out region_step_eq s0 p0)
    with False show ?thesis by (simp add: p_def)
  qed
qed


lemma zero_background: "SubtractBackground h (\<lambda>_. 0) e = (\<lambda>_. 0)"
  by (rule ext) (simp add: SubtractBackground_eq partial_sums_eq)

lemma example_ends:
  "InitBin example_headers 550 = (552, 553)"
  "InitBin example_headers (5499/10) = (551, 552)"
  "GlobalBackgroundBinEnd example_headers = 24"
  "GlobalCacheBinEnd example_headers * NUM_PEAK_TYPES = 200"
  "0 < MAX_XCORR_OFFSET example_headers"
  "0 < NUM_SPECTRUM_REGIONS example_headers"
  by (simp_all add: example_headers_def NUM_PEAK_TYPES_def)

lemma far_peak_cut_off:
  "experimental_mass_cut_off example_headers far_peak 1 = 550"
  "experimental_mass_cut_off example_headers near_cut 1 = 550"
  "experimental_mass_cut_off example_headers (near_cut\<lparr> Peaks := pks \<rparr>) 1 = 550"
  by (simp_all add: experimental_mass_cut_off_def example_headers_def far_peak_def near_cut_def)

lemma far_peak_skip_run:
  "PreprocessSpectrum example_headers skip_params far_peak 1 cnt obs_zero =
     Inr (ComputeCache example_headers
            (obs_zero\<lparr> bbe := 552, cbe := 553, ops_cache_end := 200,
               ops_peaks := SubtractBackground example_headers ((\<lambda>_. 0)(2 := 150)) 552,
               ops_cache := fold (\<lambda>i. set_Peak PeakMain i (word_of_int (round_half
                               (SubtractBackground example_headers ((\<lambda>_. 0)(2 := 150)) 552 i * 50000))))
                             [0..<552] (ops_cache obs_zero) \<rparr>),
          cnt)"
proof -
  have a: "skip_preprocessing skip_params" by (simp add: skip_params_def plain_params_def)
  have pk: "Peaks far_peak = [(5/2, 150), (600, 7)]" by (simp add: far_peak_def)
  have fl: "skip_fill example_headers 550 [(5/2, 150), (600, 7)]
              (\<lambda>i. if i < 24 then 0 else ops_peaks obs_zero i) = (\<lambda>_. 0)(2 := 150)"
    by (simp add: skip_fill_def skip_step_def example_headers_def Let_def fun_eq_iff obs_zero_def)
  have b: "\<bar>SubtractBackground example_headers ((\<lambda>_. 0)(2 := 150)) 552 i\<bar> \<le> 40000" for i
    by (rule spike_bounded [OF example_ends(5)]) simp_all
  show ?thesis
    using a by (simp add: PreprocessSpectrum_def Let_def far_peak_cut_off pk example_ends fl
                  MakeInteger_bounded b)
qed


lemma plain_run:
  assumes "\<not> skip_preprocessing p" and "Peaks spec \<noteq> []"
    and "fill h p spec (experimental_mass_cut_off h spec charge) (Peaks spec)
           \<lparr> fs_peaks = (\<lambda>i. if i < GlobalBackgroundBinEnd h then 0 else ops_peaks obs i),
             largest_mz = 0, highest_intensity = 0, fs_counters = cnt \<rparr> = s"
    and "NormalizeEachRegion h (highest_intensity s) (largest_mz s) (fs_peaks s) = B"
    and "InitBin h (min (experimental_mass_cut_off h spec charge) (fst (last (Peaks spec)))) = (e1, e2)"
    and "\<forall>i. \<bar>SubtractBackground h B e1 i\<bar> \<le> 40000"
  shows "PreprocessSpectrum h p spec charge cnt obs =
     Inr (ComputeCache h
            (obs\<lparr> bbe := e1, cbe := e2, ops_cache_end := GlobalCacheBinEnd h * NUM_PEAK_TYPES,
               ops_peaks := SubtractBackground h B e1,
               ops_cache := fold (\<lambda>i. set_Peak PeakMain i (word_of_int (round_half
                               (SubtractBackground h B e1 i * 50000))))
                             [0..<e1] (ops_cache obs) \<rparr>),
          fs_counters s)"
  using assms(1,2,6)
  by (simp add: PreprocessSpectrum_def Let_def assms(3,4,5) MakeInteger_bounded)

lemma far_peak_plain_run:
  "\<exists>obs'. PreprocessSpectrum example_headers plain_params far_peak 1 no_counts obs_zero =
     Inr (obs', no_counts\<lparr> num_range_skipped := 1, num_retained := 1 \<rparr>)"
proof -
  have a: "\<not> skip_preprocessing plain_params" by (simp add: plain_params_def)
  have pk: "Peaks far_peak \<noteq> []" by (simp add: far_peak_def)
  define s where "s = \<lparr> fs_peaks = (\<lambda>_. 0)(2 := sqrt 150), largest_mz = 2, highest_intensity = sqrt 150,
                        fs_counters = no_counts\<lparr> num_range_skipped := 1, num_retained := 1 \<rparr> \<rparr>"
  have f: "fill example_headers plain_params far_peak (experimental_mass_cut_off example_headers far_peak 1)
             (Peaks far_peak)
             \<lparr> fs_peaks = (\<lambda>i. if i < GlobalBackgroundBinEnd example_headers then 0 else ops_peaks obs_zero i),
               largest_mz = 0, highest_intensity = 0, fs_counters = no_counts \<rparr> = s"
    unfolding far_peak_cut_off
    by (simp add: fill_def fill_step_def far_peak_def plain_params_def example_headers_def
          is_isotopic_peak_def Let_def no_counts_def obs_zero_def s_def fun_eq_iff)
  have n: "NormalizeEachRegion example_headers (highest_intensity s) (largest_mz s) (fs_peaks s)
             = (\<lambda>_. 0)(2 := 50)"
    unfolding s_def fill_state.simps by (rule normalize_spike [OF _ example_ends(6)]) simp
  have e: "InitBin example_headers (min (experimental_mass_cut_off example_headers far_peak 1)
              (fst (last (Peaks far_peak)))) = (552, 553)"
    unfolding far_peak_cut_off by (simp add: far_peak_def example_ends)
  have b: "\<forall>i. \<bar>SubtractBackground example_headers ((\<lambda>_. 0)(2 := 50)) 552 i\<bar> \<le> 40000"
    by (intro allI spike_bounded [OF example_ends(5)]) simp_all
  show ?thesis
    unfolding plain_run [OF a pk f n e b] by (simp add: s_def)
qed

lemma bump_range_simps:
  "bump_range 0 s = s"
  "bump_range a (bump_range b s) = bump_range (a + b) s"
  "fs_peaks (bump_range a s) = fs_peaks s"
  "largest_mz (bump_range a s) = largest_mz s"
  "highest_intensity (bump_range a s) = highest_intensity s"
  "num_range_skipped (fs_counters (bump_range a s)) = num_range_skipped (fs_counters s) + a"
  by (simp_all add: bump_range_def)

lemma fill_step_bump:
  "fill_step h p spec c pk (bump_range n s) = bump_range n (fill_step h p spec c pk s)"
  by (simp add: fill_step_def bump_range_def Let_def)

lemma fill_step_beyond:
  "c \<le> fst pk \<Longrightarrow> fill_step h p spec c pk s = bump_range 1 s"
  by (simp add: fill_step_def bump_range_def Let_def)

lemma fill_step_below:
  "fst pk < c \<Longrightarrow> num_range_skipped (fs_counters (fill_step h p spec c pk s))
                     = num_range_skipped (fs_counters s)"
  by (simp add: fill_step_def Let_def)

lemma fold_fill_bump:
  "fold (fill_step h p spec c) xs (bump_range n s) = bump_range n (fold (fill_step h p spec c) xs s)"
  by (induction xs arbitrary: s) (simp_all add: fill_step_bump)

lemma fold_fill_filter:
  "fold (fill_step h p spec c) xs s =
     bump_range (int (length (filter (\<lambda>pk. c \<le> fst pk) xs)))
       (fold (fill_step h p spec c) (filter (\<lambda>pk. fst pk < c) xs) s)"
proof (induction xs arbitrary: s)
  case Nil
  show ?case by (simp add: bump_range_simps)
next
  case (Cons x xs)
  show ?case
  proof (cases "c \<le> fst x")
    case True
    then have nl: "\<not> fst x < c" by simp
    have "fold (fill_step h p spec c) (x # xs) s = fold (fill_step h p spec c) xs (bump_range 1 s)"
      using True by (simp add: fill_step_beyond)
    also have "\<dots> = bump_range 1 (fold (fill_step h p spec c) xs s)"
      by (rule fold_fill_bump)
    also have "\<dots> = bump_range 1 (bump_range (int (length (filter (\<lambda>pk. c \<le> fst pk) xs)))
                         (fold (fill_step h p spec c) (filter (\<lambda>pk. fst pk < c) xs) s))"
      by (subst Cons.IH) simp
    finally show ?thesis
      using True nl by (simp add: bump_range_simps)
  next
    case False
    then have lt: "fst x < c" by simp
    show ?thesis
      using False lt by (simp add: Cons.IH)
  qed
qed

lemma fold_fill_below:
  "\<forall>pk\<in>set xs. fst pk < c \<Longrightarrow>
   num_range_skipped (fs_counters (fold (fill_step h p spec c) xs s)) = num_range_skipped (fs_counters s)"
  by (induction xs arbitrary: s) (simp_all add: fill_step_below)

lemma fold_skip_filter:
  "fold (skip_step h c) xs peaks = fold (skip_step h c) (filter (\<lambda>pk. fst pk < c) xs) peaks"
proof (induction xs arbitrary: peaks)
  case Nil
  show ?case by simp
next
  case (Cons x xs)
  have "\<not> fst x < c \<Longrightarrow> skip_step h c x peaks = peaks"
    by (simp add: skip_step_def Let_def)
  then show ?case by (simp add: Cons.IH)
qed

lemma fill_filter:
  "fill h p spec c pks s =
     bump_range (int (length (filter (\<lambda>pk. c \<le> fst pk) pks)))
       (fill h p spec c (filter (\<lambda>pk. fst pk < c) pks) s)"
proof -
  have "length (filter (\<lambda>pk. c \<le> fst pk) (rev pks)) = length (filter (\<lambda>pk. c \<le> fst pk) pks)"
    by (simp add: rev_filter [symmetric])
  then show ?thesis
    unfolding fill_def by (simp add: fold_fill_filter [of h p spec c "rev pks"] rev_filter)
qed

lemma fill_below:
  "num_range_skipped (fs_counters (fill h p spec c (filter (\<lambda>pk. fst pk < c) pks) s))
     = num_range_skipped (fs_counters s)"
  unfolding fill_def by (rule fold_fill_below) simp


lemma fill_step_spec:
  assumes "deisotope p = 0"
  shows "fill_step h p (spec\<lparr> Peaks := pks \<rparr>) c = fill_step h p spec c"
  using assms by (intro ext) (simp add: fill_step_def is_isotopic_peak_def Let_def)

lemma counted_or_undefined:
  assumes "\<not> skip_preprocessing p" and "Peaks spec \<noteq> []"
  shows "PreprocessSpectrum h p spec charge cnt obs = Inl (UNDEFINED_BEHAVIOUR ''double to int out of range'')
       \<or> (\<exists>obs' cnt'. PreprocessSpectrum h p spec charge cnt obs = Inr (obs', cnt')
             \<and> num_range_skipped cnt' = num_range_skipped cnt
                  + int (length (filter (\<lambda>pk. experimental_mass_cut_off h spec charge \<le> fst pk) (Peaks spec))))"
proof -
  define c where "c = experimental_mass_cut_off h spec charge"
  define s0 where "s0 = \<lparr> fs_peaks = (\<lambda>i. if i < GlobalBackgroundBinEnd h then 0 else ops_peaks obs i),
                          largest_mz = 0, highest_intensity = 0, fs_counters = cnt \<rparr>"
  have "num_range_skipped (fs_counters (fill h p spec c (Peaks spec) s0))
          = num_range_skipped cnt + int (length (filter (\<lambda>pk. c \<le> fst pk) (Peaks spec)))"
    by (subst fill_filter) (simp add: bump_range_simps fill_below s0_def)
  then show ?thesis
    using assms
    by (simp add: PreprocessSpectrum_def Let_def c_def s0_def MakeInteger_eq)
qed

lemma uncounted_or_undefined:
  assumes "skip_preprocessing p" and "Peaks spec \<noteq> []"
  shows "PreprocessSpectrum h p spec charge cnt obs = Inl (UNDEFINED_BEHAVIOUR ''double to int out of range'')
       \<or> (\<exists>obs'. PreprocessSpectrum h p spec charge cnt obs = Inr (obs', cnt))"
  using assms by (simp add: PreprocessSpectrum_def Let_def MakeInteger_eq)

text \<open>
  Claim C6, as amended. Preprocessing computes
  \<open>experimental_mass_cut_off = (precursor_mz - proton_mass) * charge + proton_mass + 50\<close>.
  A peak whose m/z is at or above this cutoff is discarded in either branch: its step of the
  filling loop writes no bin and changes no running maximum. Outside \<^verbatim>\<open>skip-preprocessing\<close>
  mode the step adds one to the range-skipped counter and does nothing else, so that the loop
  ends in the state in which the loop over the peaks below the cutoff ends, with the counter
  raised by the number of the discarded peaks; the isotope test of the peaks below the cutoff
  still searches the whole spectrum, the discarded peaks included. When deisotoping is off
  (threshold 0), this is the state reached on the spectrum without the discarded peaks.
  In \<^verbatim>\<open>skip-preprocessing\<close> mode the step does nothing. A call on a spectrum with a peak
  either meets the undefined conversion of \<^verbatim>\<open>MakeInteger\<close> or returns: outside
  \<^verbatim>\<open>skip-preprocessing\<close> mode with the range-skipped counter raised by the number of the
  peaks at or above the cutoff, in \<^verbatim>\<open>skip-preprocessing\<close> mode with the counters as they
  were.
\<close>

theorem cut_off_discards:
  "experimental_mass_cut_off h spec charge
     = (PrecursorMZ spec - MASS_PROTON h) * real_of_int charge + MASS_PROTON h + 50
   \<and> (c \<le> fst pk \<longrightarrow> fill_step h p spec c pk s = bump_range 1 s \<and> skip_step h c pk peaks = peaks)
   \<and> fill h p spec c pks s =
       bump_range (int (length (filter (\<lambda>pk. c \<le> fst pk) pks)))
         (fill h p spec c (filter (\<lambda>pk. fst pk < c) pks) s)
   \<and> (deisotope p = 0 \<longrightarrow>
        fill h p spec c pks s =
          bump_range (int (length (filter (\<lambda>pk. c \<le> fst pk) pks)))
            (fill h p (spec\<lparr> Peaks := filter (\<lambda>pk. fst pk < c) (Peaks spec) \<rparr>) c
               (filter (\<lambda>pk. fst pk < c) pks) s))
   \<and> skip_fill h c pks peaks = skip_fill h c (filter (\<lambda>pk. fst pk < c) pks) peaks
   \<and> (\<not> skip_preprocessing p \<longrightarrow> Peaks spec \<noteq> [] \<longrightarrow>
        PreprocessSpectrum h p spec charge cnt obs = Inl (UNDEFINED_BEHAVIOUR ''double to int out of range'')
        \<or> (\<exists>obs' cnt'. PreprocessSpectrum h p spec charge cnt obs = Inr (obs', cnt')
              \<and> num_range_skipped cnt' = num_range_skipped cnt
                   + int (length (filter (\<lambda>pk. experimental_mass_cut_off h spec charge \<le> fst pk) (Peaks spec)))))
   \<and> (skip_preprocessing p \<longrightarrow> Peaks spec \<noteq> [] \<longrightarrow>
        PreprocessSpectrum h p spec charge cnt obs = Inl (UNDEFINED_BEHAVIOUR ''double to int out of range'')
        \<or> (\<exists>obs'. PreprocessSpectrum h p spec charge cnt obs = Inr (obs', cnt)))"
proof (intro conjI impI)
  show "experimental_mass_cut_off h spec charge
     = (PrecursorMZ spec - MASS_PROTON h) * real_of_int charge + MASS_PROTON h + 50"
    by (simp add: experimental_mass_cut_off_def)
  show "fill h p spec c pks s =
       bump_range (int (length (filter (\<lambda>pk. c \<le> fst pk) pks)))
         (fill h p spec c (filter (\<lambda>pk. fst pk < c) pks) s)"
    by (rule fill_filter)
  show "skip_fill h c pks peaks = skip_fill h c (filter (\<lambda>pk. fst pk < c) pks) peaks"
    unfolding skip_fill_def by (rule fold_skip_filter)
next
  assume "c \<le> fst pk"
  then show "fill_step h p spec c pk s = bump_range 1 s" and "skip_step h c pk peaks = peaks"
    by (simp_all add: fill_step_beyond skip_step_def Let_def)
next
  assume "deisotope p = 0"
  then have "fill h p (spec\<lparr> Peaks := filter (\<lambda>pk. fst pk < c) (Peaks spec) \<rparr>) c = fill h p spec c"
    by (intro ext) (simp add: fill_def fill_step_spec)
  then show "fill h p spec c pks s =
          bump_range (int (length (filter (\<lambda>pk. c \<le> fst pk) pks)))
            (fill h p (spec\<lparr> Peaks := filter (\<lambda>pk. fst pk < c) (Peaks spec) \<rparr>) c
               (filter (\<lambda>pk. fst pk < c) pks) s)"
    by (simp only: fill_filter [symmetric])
next
  assume "\<not> skip_preprocessing p" and "Peaks spec \<noteq> []"
  then show "PreprocessSpectrum h p spec charge cnt obs = Inl (UNDEFINED_BEHAVIOUR ''double to int out of range'')
        \<or> (\<exists>obs' cnt'. PreprocessSpectrum h p spec charge cnt obs = Inr (obs', cnt')
              \<and> num_range_skipped cnt' = num_range_skipped cnt
                   + int (length (filter (\<lambda>pk. experimental_mass_cut_off h spec charge \<le> fst pk) (Peaks spec))))"
    by (rule counted_or_undefined)
next
  assume "skip_preprocessing p" and "Peaks spec \<noteq> []"
  then show "PreprocessSpectrum h p spec charge cnt obs = Inl (UNDEFINED_BEHAVIOUR ''double to int out of range'')
        \<or> (\<exists>obs'. PreprocessSpectrum h p spec charge cnt obs = Inr (obs', cnt))"
    by (rule uncounted_or_undefined)
qed


theorem cut_off_discards_witness:
  "\<not> skip_preprocessing plain_params \<and> deisotope plain_params = 0 \<and> Peaks far_peak \<noteq> []
   \<and> experimental_mass_cut_off example_headers far_peak 1 = 550
   \<and> (550::real) \<le> fst (600::real, 7::real)
   \<and> skip_step example_headers 550 (600, 7) (\<lambda>_. 0) = (\<lambda>_. 0)
   \<and> (case PreprocessSpectrum example_headers plain_params far_peak 1 no_counts obs_zero of
        Inl e \<Rightarrow> None
      | Inr r \<Rightarrow> Some (num_range_skipped (snd r))) = Some 1
   \<and> skip_preprocessing skip_params
   \<and> (case PreprocessSpectrum example_headers skip_params far_peak 1 no_counts obs_zero of
        Inl e \<Rightarrow> None
      | Inr r \<Rightarrow> Some (snd r)) = Some no_counts"
proof -
  have a: "\<not> skip_preprocessing plain_params" "deisotope plain_params = 0"
    "skip_preprocessing skip_params"
    by (simp_all add: plain_params_def skip_params_def)
  have b: "Peaks far_peak \<noteq> []" by (simp add: far_peak_def)
  have g: "(550::real) \<le> fst (600::real, 7::real)" by simp
  have n: "length (filter (\<lambda>pk. experimental_mass_cut_off example_headers far_peak 1 \<le> fst pk)
                     (Peaks far_peak)) = 1"
    unfolding far_peak_cut_off by (simp add: far_peak_def)
  note plain = cut_off_discards [where h = example_headers and spec = far_peak and charge = 1
         and p = plain_params and cnt = no_counts and obs = obs_zero and c = 550 and pk = "(600, 7)"
         and peaks = "\<lambda>_. 0"]
  note skip = cut_off_discards [where h = example_headers and spec = far_peak and charge = 1
         and p = skip_params and cnt = no_counts and obs = obs_zero]
  from plain have c: "experimental_mass_cut_off example_headers far_peak 1 = 550"
    by (simp add: far_peak_def example_headers_def)
  from plain g have st: "skip_step example_headers 550 (600, 7) (\<lambda>_. 0) = (\<lambda>_. 0)"
    by blast
  from far_peak_plain_run obtain o1 c1 where
    r1: "PreprocessSpectrum example_headers plain_params far_peak 1 no_counts obs_zero = Inr (o1, c1)"
    by blast
  from plain a(1) b have
    "PreprocessSpectrum example_headers plain_params far_peak 1 no_counts obs_zero
        = Inl (UNDEFINED_BEHAVIOUR ''double to int out of range'')
     \<or> (\<exists>obs' cnt'. PreprocessSpectrum example_headers plain_params far_peak 1 no_counts obs_zero = Inr (obs', cnt')
           \<and> num_range_skipped cnt' = num_range_skipped no_counts
                + int (length (filter (\<lambda>pk. experimental_mass_cut_off example_headers far_peak 1 \<le> fst pk)
                         (Peaks far_peak))))"
    by blast
  with r1 have "num_range_skipped c1 = num_range_skipped no_counts + 1"
    by (simp add: n)
  then have "num_range_skipped c1 = 1"
    by (simp add: no_counts_def)
  then have p1: "(case PreprocessSpectrum example_headers plain_params far_peak 1 no_counts obs_zero of
        Inl e \<Rightarrow> None
      | Inr r \<Rightarrow> Some (num_range_skipped (snd r))) = Some 1"
    by (simp add: r1)
  have r2: "\<exists>o2 c2. PreprocessSpectrum example_headers skip_params far_peak 1 no_counts obs_zero = Inr (o2, c2)"
    by (simp add: far_peak_skip_run)
  from skip a(3) b have
    "PreprocessSpectrum example_headers skip_params far_peak 1 no_counts obs_zero
        = Inl (UNDEFINED_BEHAVIOUR ''double to int out of range'')
     \<or> (\<exists>obs'. PreprocessSpectrum example_headers skip_params far_peak 1 no_counts obs_zero = Inr (obs', no_counts))"
    by blast
  with r2 have p2: "(case PreprocessSpectrum example_headers skip_params far_peak 1 no_counts obs_zero of
        Inl e \<Rightarrow> None
      | Inr r \<Rightarrow> Some (snd r)) = Some no_counts"
    by auto
  from a b c g st p1 p2 show ?thesis by simp
qed

lemma near_cut_run:
  "\<exists>obs'. PreprocessSpectrum example_headers wide_deisotope near_cut 1 no_counts obs_zero =
     Inr (obs', no_counts\<lparr> num_range_skipped := 1, num_isotopes_skipped := 1 \<rparr>)
     \<and> Peak (ops_cache obs') PeakMain 549 = 0"
proof -
  have a: "\<not> skip_preprocessing wide_deisotope" by (simp add: wide_deisotope_def plain_params_def)
  have pk: "Peaks near_cut \<noteq> []" by (simp add: near_cut_def)
  define s where "s = \<lparr> fs_peaks = (\<lambda>_. 0::real), largest_mz = 0, highest_intensity = 0,
                        fs_counters = no_counts\<lparr> num_range_skipped := 1, num_isotopes_skipped := 1 \<rparr> \<rparr>"
  have f: "fill example_headers wide_deisotope near_cut (experimental_mass_cut_off example_headers near_cut 1)
             (Peaks near_cut)
             \<lparr> fs_peaks = (\<lambda>i. if i < GlobalBackgroundBinEnd example_headers then 0 else ops_peaks obs_zero i),
               largest_mz = 0, highest_intensity = 0, fs_counters = no_counts \<rparr> = s"
    unfolding far_peak_cut_off
    by (simp add: fill_def fill_step_def near_cut_def wide_deisotope_def plain_params_def example_headers_def
          is_isotopic_peak_def Let_def no_counts_def obs_zero_def s_def fun_eq_iff upto.simps)
  have n: "NormalizeEachRegion example_headers (highest_intensity s) (largest_mz s) (fs_peaks s)
             = (\<lambda>_. 0)"
    unfolding s_def fill_state.simps by (rule normalize_zero)
  have e: "InitBin example_headers (min (experimental_mass_cut_off example_headers near_cut 1)
              (fst (last (Peaks near_cut)))) = (552, 553)"
    unfolding far_peak_cut_off by (simp add: near_cut_def example_ends)
  have b: "\<forall>i. \<bar>SubtractBackground example_headers (\<lambda>_. 0) 552 i\<bar> \<le> 40000"
    by (simp add: zero_background)
  show ?thesis
    unfolding plain_run [OF a pk f n e b]
    by (simp add: s_def ComputeCache_cells MakeInteger_loop zero_background round_half_def)
qed

lemma near_cut_alone_run:
  "\<exists>obs'. PreprocessSpectrum example_headers wide_deisotope (near_cut\<lparr> Peaks := [(5499/10, 4)] \<rparr>) 1
             no_counts obs_zero =
     Inr (obs', no_counts\<lparr> num_retained := 1 \<rparr>)
     \<and> Peak (ops_cache obs') PeakMain 549 = 2500000"
proof -
  let ?spec = "near_cut\<lparr> Peaks := [(5499/10, 4)] \<rparr>"
  have a: "\<not> skip_preprocessing wide_deisotope" by (simp add: wide_deisotope_def plain_params_def)
  have pk: "Peaks ?spec \<noteq> []" by simp
  define s where "s = \<lparr> fs_peaks = (\<lambda>_. 0::real)(549 := 2), largest_mz = 549, highest_intensity = 2,
                        fs_counters = no_counts\<lparr> num_retained := 1 \<rparr> \<rparr>"
  have f: "fill example_headers wide_deisotope ?spec (experimental_mass_cut_off example_headers ?spec 1)
             (Peaks ?spec)
             \<lparr> fs_peaks = (\<lambda>i. if i < GlobalBackgroundBinEnd example_headers then 0 else ops_peaks obs_zero i),
               largest_mz = 0, highest_intensity = 0, fs_counters = no_counts \<rparr> = s"
    unfolding far_peak_cut_off
    by (simp add: fill_def fill_step_def near_cut_def wide_deisotope_def plain_params_def example_headers_def
          is_isotopic_peak_def Let_def no_counts_def obs_zero_def s_def fun_eq_iff upto.simps)
  have "NormalizeEachRegion example_headers (sqrt 4) 549 ((\<lambda>_. 0)(549 := sqrt 4)) = (\<lambda>_. 0)(549 := 50)"
    by (rule normalize_spike [OF _ example_ends(6)]) simp
  then have n: "NormalizeEachRegion example_headers (highest_intensity s) (largest_mz s) (fs_peaks s)
             = (\<lambda>_. 0)(549 := 50)"
    by (simp add: s_def)
  have e: "InitBin example_headers (min (experimental_mass_cut_off example_headers ?spec 1)
              (fst (last (Peaks ?spec)))) = (551, 552)"
    unfolding far_peak_cut_off by (simp add: example_ends)
  have b: "\<forall>i. \<bar>SubtractBackground example_headers ((\<lambda>_. 0)(549 := 50)) 551 i\<bar> \<le> 40000"
    by (intro allI spike_bounded [OF example_ends(5)]) simp_all
  have k: "SubtractBackground example_headers ((\<lambda>_. 0)(549 := 50)) 551 549 = 50"
    by (rule spike_kept [OF example_ends(5)]) simp_all
  show ?thesis
    unfolding plain_run [OF a pk f n e b]
    by (simp add: s_def ComputeCache_cells MakeInteger_loop k round_half_def)
qed

text \<open>
  Claim C6 as stated fails twice. In \<^verbatim>\<open>skip-preprocessing\<close> mode the spectrum \<open>far_peak\<close> has
  one peak beyond the cutoff 550, and the range-skipped counter is still 0 after the call.
  And a peak at the cutoff contributes to the cache: in \<open>near_cut\<close>, with a deisotoping
  threshold of 1000 ppm, the peak at 549.9 (intensity 4) is removed as an isotope of the peak
  at 550 (intensity 9, found for the fragment charge 3), and the base cell of bin 549 is 0;
  without the peak at 550 that cell holds 2500000.
\<close>

theorem cut_off_discards_counterexample:
  "(case PreprocessSpectrum example_headers skip_params far_peak 1 no_counts obs_zero of
      Inl e \<Rightarrow> None
    | Inr r \<Rightarrow> Some (num_range_skipped (snd r))) = Some 0
   \<and> length (filter (\<lambda>pk. experimental_mass_cut_off example_headers far_peak 1 \<le> fst pk)
               (Peaks far_peak)) = 1
   \<and> (case PreprocessSpectrum example_headers wide_deisotope near_cut 1 no_counts obs_zero of
        Inl e \<Rightarrow> None
      | Inr r \<Rightarrow> Some (Peak (ops_cache (fst r)) PeakMain 549, num_isotopes_skipped (snd r)))
       = Some (0, 1)
   \<and> (case PreprocessSpectrum example_headers wide_deisotope (near_cut\<lparr> Peaks := [(5499/10, 4)] \<rparr>) 1
             no_counts obs_zero of
        Inl e \<Rightarrow> None
      | Inr r \<Rightarrow> Some (Peak (ops_cache (fst r)) PeakMain 549, num_isotopes_skipped (snd r)))
       = Some (2500000, 0)"
proof -
  have n: "length (filter (\<lambda>pk. experimental_mass_cut_off example_headers far_peak 1 \<le> fst pk)
                     (Peaks far_peak)) = 1"
    unfolding far_peak_cut_off by (simp add: far_peak_def)
  from near_cut_run obtain o1 where
    r1: "PreprocessSpectrum example_headers wide_deisotope near_cut 1 no_counts obs_zero =
           Inr (o1, no_counts\<lparr> num_range_skipped := 1, num_isotopes_skipped := 1 \<rparr>)"
    "Peak (ops_cache o1) PeakMain 549 = 0"
    by blast
  from near_cut_alone_run obtain o2 where
    r2: "PreprocessSpectrum example_headers wide_deisotope (near_cut\<lparr> Peaks := [(5499/10, 4)] \<rparr>) 1
           no_counts obs_zero = Inr (o2, no_counts\<lparr> num_retained := 1 \<rparr>)"
    "Peak (ops_cache o2) PeakMain 549 = 2500000"
    by blast
  have z: "num_range_skipped no_counts = 0" "num_isotopes_skipped no_counts = 0"
    by (simp_all add: no_counts_def)
  show ?thesis
    by (simp add: far_peak_skip_run n r1 r2 z)
qed

subsection \<open>The isotope errors\<close>

lemma push_negative:
  "\<exists>v\<in>set vs. v < 0 \<Longrightarrow> isl (push_isotope_errors vs neg)"
  by (induction vs arbitrary: neg) auto

lemma push_duplicate:
  "\<not> distinct vs \<or> (\<exists>v\<in>set vs. - v \<in> set neg) \<Longrightarrow> isl (push_isotope_errors vs neg)"
proof (induction vs arbitrary: neg)
  case Nil
  then show ?case by simp
next
  case (Cons i rest)
  show ?case
  proof (cases "i < 0 \<or> - i \<in> set neg")
    case True
    then show ?thesis by auto
  next
    case False
    with Cons.prems have "\<not> distinct rest \<or> (\<exists>v\<in>set rest. - v \<in> set (neg @ [- i]))"
      by auto
    then have "isl (push_isotope_errors rest (neg @ [- i]))" by (rule Cons.IH)
    with False show ?thesis by simp
  qed
qed

lemma Split_12: "Split_int ''1,2'' (CHR '','') = [1, 2]"
  by (simp add: Split_int_def FromString_int_def is_digit_def)

lemma Split_m1: "Split_int ''-1'' (CHR '','') = [-1]"
  by (simp add: Split_int_def FromString_int_def is_digit_def)

lemma Split_11: "Split_int ''1,1'' (CHR '','') = [1, 1]"
  by (simp add: Split_int_def FromString_int_def is_digit_def)

text \<open>
  Claim C8. Parsing the isotope-error string \<open>"1,2"\<close> yields the sorted list \<open>[-2, -1, 0]\<close>;
  parsing \<open>",1"\<close> or \<open>"1,,2"\<close> is fatal; and so is every nonempty input whose parsed values
  contain a negative value or the same value twice, whatever function splits the string into
  values.
\<close>

theorem getNegativeIsotopeErrors_parses:
  "getNegativeIsotopeErrors ''1,2'' = Inr [- 2, - 1, 0]
   \<and> isl (getNegativeIsotopeErrors '',1'')
   \<and> isl (getNegativeIsotopeErrors ''1,,2'')
   \<and> (\<forall>split s. s \<noteq> [] \<longrightarrow> (\<exists>v\<in>set (split s). v < 0) \<longrightarrow> isl (getNegativeIsotopeErrors_with split s))
   \<and> (\<forall>split s. s \<noteq> [] \<longrightarrow> \<not> distinct (split s) \<longrightarrow> isl (getNegativeIsotopeErrors_with split s))"
proof (intro conjI allI impI)
  show "getNegativeIsotopeErrors ''1,2'' = Inr [- 2, - 1, 0]"
    by (simp add: getNegativeIsotopeErrors_def getNegativeIsotopeErrors_with_def Split_12)
  show "isl (getNegativeIsotopeErrors '',1'')"
    by (simp add: getNegativeIsotopeErrors_def getNegativeIsotopeErrors_with_def)
  show "isl (getNegativeIsotopeErrors ''1,,2'')"
    by (simp add: getNegativeIsotopeErrors_def getNegativeIsotopeErrors_with_def)
next
  fix split :: "string \<Rightarrow> int list" and s :: string
  assume "s \<noteq> []" and "\<exists>v\<in>set (split s). v < 0"
  then show "isl (getNegativeIsotopeErrors_with split s)"
    using push_negative [of "split s" "[0]"]
    by (auto simp: getNegativeIsotopeErrors_with_def split: sum.splits)
next
  fix split :: "string \<Rightarrow> int list" and s :: string
  assume "s \<noteq> []" and "\<not> distinct (split s)"
  then show "isl (getNegativeIsotopeErrors_with split s)"
    using push_duplicate [of "split s" "[0]"]
    by (auto simp: getNegativeIsotopeErrors_with_def split: sum.splits)
qed

theorem getNegativeIsotopeErrors_parses_witness:
  "''-1'' \<noteq> [] \<and> ''1,1'' \<noteq> []
   \<and> isl (getNegativeIsotopeErrors ''-1'') \<and> isl (getNegativeIsotopeErrors ''1,1'')"
proof -
  have a: "\<exists>v\<in>set (Split_int ''-1'' (CHR '','')). v < 0" by (simp add: Split_m1)
  have b: "\<not> distinct (Split_int ''1,1'' (CHR '',''))" by (simp add: Split_11)
  have n: "''-1'' \<noteq> []" "''1,1'' \<noteq> []" by simp_all
  note t = getNegativeIsotopeErrors_parses [THEN conjunct2, THEN conjunct2, THEN conjunct2]
  have "isl (getNegativeIsotopeErrors_with (\<lambda>s. Split_int s (CHR '','')) ''-1'')"
    using t [THEN conjunct1, rule_format, where split = "\<lambda>s. Split_int s (CHR '','')" and s = "''-1''"]
      n(1) a by simp
  moreover have "isl (getNegativeIsotopeErrors_with (\<lambda>s. Split_int s (CHR '','')) ''1,1'')"
    using t [THEN conjunct2, rule_format, where split = "\<lambda>s. Split_int s (CHR '','')" and s = "''1,1''"]
      n(2) b by simp
  ultimately show ?thesis
    by (simp add: getNegativeIsotopeErrors_def)
qed

subsection \<open>Deisotoping and exact p-values\<close>

lemma computeWindow_returns:
  "wt \<noteq> WINDOW_INVALID \<Longrightarrow> ies \<noteq> [] \<Longrightarrow> \<exists>w. computeWindow h sc wt pw mc ies [] [] = Inr w"
  by (cases wt) (simp_all add: computeWindow_def Let_def)

lemma search_step_deisotope:
  assumes "exact_pval_search a" and "deisotope p \<noteq> 0"
    and "window_type a \<noteq> WINDOW_INVALID" and "negative_isotope_errors a \<noteq> []"
  shows "search_step h p a sc done =
           (if eligible a sc
            then Inl (FATAL ''Deisotoping is not yet implemented in conjunction with exact p-values.'')
            else Inr done)"
proof -
  from computeWindow_returns [OF assms(3,4)]
  obtain w where "computeWindow h sc (window_type a) (precursor_window a) (max_charge a)
                    (negative_isotope_errors a) [] [] = Inr w"
    by blast
  then show ?thesis
    using assms(1,2) by (simp add: search_step_def eligible_def)
qed

lemma search_loop_deisotope:
  assumes "exact_pval_search a" and "deisotope p \<noteq> 0"
    and "window_type a \<noteq> WINDOW_INVALID" and "negative_isotope_errors a \<noteq> []"
    and n: "0 < num_threads a"
  shows "search_loop h p a scs i done =
           Some (if \<exists>j. i \<le> j \<and> j < length scs \<and> (j - i) mod num_threads a = 0 \<and> eligible a (scs ! j)
                 then Inl (FATAL ''Deisotoping is not yet implemented in conjunction with exact p-values.'')
                 else Inr done)"
proof (induction "length scs - i" arbitrary: i rule: less_induct)
  case less
  let ?n = "num_threads a"
  let ?F = "Inl (FATAL ''Deisotoping is not yet implemented in conjunction with exact p-values.'') :: error + scored list"
  let ?E = "\<lambda>i. \<exists>j. i \<le> j \<and> j < length scs \<and> (j - i) mod ?n = 0 \<and> eligible a (scs ! j)"
  show ?case
  proof (cases "i < length scs")
    case False
    then have nE: "\<not> ?E i" by auto
    have "search_loop h p a scs i done = Some (Inr done)"
      using False by (subst search_loop.simps) simp
    then show ?thesis by (simp only: nE if_False)
  next
    case True
    have unf: "search_loop h p a scs i done =
                 (if eligible a (scs ! i) then Some ?F else search_loop h p a scs (i + ?n) done)"
      using True
      by (subst search_loop.simps) (simp add: search_step_deisotope [OF assms(1-4)])
    show ?thesis
    proof (cases "eligible a (scs ! i)")
      case e: True
      with True have E: "?E i" by (intro exI [of _ i]) simp
      show ?thesis
        by (simp only: unf e if_True E)
    next
      case ne: False
      have smaller: "length scs - (i + ?n) < length scs - i" using True n by arith
      have IH: "search_loop h p a scs (i + ?n) done = Some (if ?E (i + ?n) then ?F else Inr done)"
        by (rule less [OF smaller])
      have iff: "?E i \<longleftrightarrow> ?E (i + ?n)"
      proof
        assume "?E i"
        then obtain j where j: "i \<le> j" "j < length scs" "(j - i) mod ?n = 0" "eligible a (scs ! j)"
          by (elim exE conjE)
        from ne j(4) have "j \<noteq> i" by blast
        with j(1) have pos: "0 < j - i" by simp
        from j(3) have "?n dvd j - i" by (rule mod_0_imp_dvd)
        from this pos have "?n \<le> j - i" by (rule dvd_imp_le)
        then have a1: "i + ?n \<le> j" using j(1) by arith
        have eq: "j - i = (j - (i + ?n)) + ?n" using a1 by arith
        have "(j - i) mod ?n = (j - (i + ?n)) mod ?n"
          by (subst eq) (rule mod_add_self2)
        with j(3) have a2: "(j - (i + ?n)) mod ?n = 0" by simp
        show "?E (i + ?n)"
          by (rule exI [of _ j]) (intro conjI a1 j(2) a2 j(4))
      next
        assume "?E (i + ?n)"
        then obtain j where j: "i + ?n \<le> j" "j < length scs" "(j - (i + ?n)) mod ?n = 0"
            "eligible a (scs ! j)"
          by (elim exE conjE)
        have eq: "j - i = (j - (i + ?n)) + ?n" using j(1) by arith
        have "(j - i) mod ?n = (j - (i + ?n)) mod ?n"
          by (subst eq) (rule mod_add_self2)
        with j(3) have m: "(j - i) mod ?n = 0" by simp
        have le: "i \<le> j" using j(1) by arith
        show "?E i"
          by (rule exI [of _ j]) (intro conjI le j(2) m j(4))
      qed
      show ?thesis
        by (simp only: unf ne if_False IH iff)
    qed
  qed
qed

text \<open>
  Claim C7, as amended. When a nonzero deisotoping threshold is configured together with
  exact-p-value mode (with a valid window type, a nonempty isotope-error list and at least
  one thread), the search of a thread returns, and it aborts with the fatal error exactly
  when one of the pairs that the thread visits passes the filters; otherwise it completes
  without the error. In both cases no pair has been scored: deisotoping and exact-p-value
  scoring are never both in effect for a scored spectrum.
\<close>

theorem search_deisotope_exact:
  assumes "exact_pval_search a" and "deisotope p \<noteq> 0"
    and "window_type a \<noteq> WINDOW_INVALID" and "negative_isotope_errors a \<noteq> []"
    and "0 < num_threads a"
  shows "search h p a scs =
           Some (if \<exists>i. visited a (length scs) i \<and> eligible a (scs ! i)
                 then Inl (FATAL ''Deisotoping is not yet implemented in conjunction with exact p-values.'')
                 else Inr [])"
proof -
  have "(\<exists>j. thread_num a \<le> j \<and> j < length scs \<and> (j - thread_num a) mod num_threads a = 0
            \<and> eligible a (scs ! j))
        \<longleftrightarrow> (\<exists>i. visited a (length scs) i \<and> eligible a (scs ! i))"
    by (simp add: visited_def conj_assoc)
  then show ?thesis
    unfolding search_def search_loop_deisotope [OF assms] by simp
qed

theorem search_deisotope_exact_witness:
  "exact_pval_search exact_args \<and> deisotope deisotope_params \<noteq> 0
   \<and> window_type exact_args \<noteq> WINDOW_INVALID \<and> negative_isotope_errors exact_args \<noteq> []
   \<and> 0 < num_threads exact_args
   \<and> search example_headers deisotope_params exact_args [low_pair, high_pair] =
       Some (Inl (FATAL ''Deisotoping is not yet implemented in conjunction with exact p-values.''))"
proof -
  have a: "exact_pval_search exact_args" "deisotope deisotope_params \<noteq> 0"
    "window_type exact_args \<noteq> WINDOW_INVALID" "negative_isotope_errors exact_args \<noteq> []"
    "0 < num_threads exact_args"
    by (simp_all add: exact_args_def deisotope_params_def plain_params_def)
  have "visited exact_args (length [low_pair, high_pair]) 1 \<and> eligible exact_args ([low_pair, high_pair] ! 1)"
    by (simp add: visited_def eligible_def already_assigned_def filtered_out_def exact_args_def
          high_pair_def single_peak_def)
  then have "\<exists>i. visited exact_args (length [low_pair, high_pair]) i
                 \<and> eligible exact_args ([low_pair, high_pair] ! i)"
    by (rule exI)
  with a show ?thesis
    using search_deisotope_exact [OF a, of example_headers "[low_pair, high_pair]"]
    by simp
qed

text \<open>
  Claim C7 as stated fails when no pair passes the filters: with the deisotoping threshold
  10 and exact-p-value mode, the search over the single pair \<open>low_pair\<close>, whose precursor m/z
  500 lies below the accepted 600, completes without a fatal error.
\<close>

theorem search_deisotope_exact_counterexample:
  "exact_pval_search exact_args \<and> deisotope deisotope_params \<noteq> 0
   \<and> search example_headers deisotope_params exact_args [low_pair] = Some (Inr [])"
  by (simp add: search_def search_loop.simps search_step_def already_assigned_def filtered_out_def
        exact_args_def deisotope_params_def plain_params_def low_pair_def single_peak_def)

subsection \<open>Batch scoring\<close>

lemma DotProd_foldl: "DotProd cache theoretical = foldl (\<lambda>eax code. eax + cache code) 0 theoretical"
  by (simp add: DotProd_def foldl_conv_fold)

lemma run_routines_all:
  "run_routines cache rs (length rs, acc) =
     Inr (acc @ map (\<lambda>k. (DotProd cache (rs ! k), length rs - k)) [0..<length rs])"
proof (induction rs arbitrary: acc)
  case Nil
  show ?case by simp
next
  case (Cons r rs)
  have "run_routines cache (r # rs) (length (r # rs), acc)
          = run_routines cache rs (length rs, acc @ [(DotProd cache r, Suc (length rs))])"
    by (simp add: run_routine_def Let_def DotProd_foldl)
  also have "\<dots> = Inr ((acc @ [(DotProd cache r, Suc (length rs))])
                       @ map (\<lambda>k. (DotProd cache (rs ! k), length rs - k)) [0..<length rs])"
    by (rule Cons.IH)
  also have "map (\<lambda>k. (DotProd cache (rs ! k), length rs - k)) [0..<length rs]
               = map (\<lambda>k. (DotProd cache ((r # rs) ! k), length (r # rs) - k)) [Suc 0..<Suc (length rs)]"
    unfolding map_Suc_upt [symmetric] by simp
  finally show ?case
    by (simp add: upt_conv_Cons del: upt_Suc)
qed

text \<open>
  Claim C5. For every cache and every queue of candidate peptides, the batch scorer, called
  with the size of the queue, returns, and writes for each candidate one (score, counter)
  pair: the score of the \<open>k\<close>-th candidate equals the reference sparse dot product
  \<^verbatim>\<open>DotProd\<close> of the cache with that candidate's theoretical peaks, and its counter is the
  size of the queue minus \<open>k\<close>, its position from the back. On an empty queue the array is
  left as it was.
\<close>

theorem collectScoresCompiled_DotProd:
  "collectScoresCompiled queue cache match_arr (length queue) charge =
     Inr (if queue = [] then match_arr
          else map (\<lambda>k. (DotProd cache (peak_codes (queue ! k) charge), length queue - k))
                 [0..<length queue])"
proof (cases "queue = []")
  case True
  then show ?thesis by (simp add: collectScoresCompiled_def)
next
  case False
  let ?rs = "map (\<lambda>peptide. Prog peptide charge) queue"
  have "run_routines cache ?rs (length queue, []) =
          Inr (map (\<lambda>k. (DotProd cache (?rs ! k), length ?rs - k)) [0..<length ?rs])"
    using run_routines_all [of cache ?rs "[]"] by simp
  also have "map (\<lambda>k. (DotProd cache (?rs ! k), length ?rs - k)) [0..<length ?rs]
               = map (\<lambda>k. (DotProd cache (peak_codes (queue ! k) charge), length queue - k)) [0..<length queue]"
    by (simp add: Prog_def)
  finally show ?thesis
    using False by (simp add: collectScoresCompiled_def)
qed

lemma collectScoresCompiled_example:
  "collectScoresCompiled queue_example cache_example [] 2 1 = Inr [(4, 2), (12, 1)]"
  by (simp add: collectScoresCompiled_def queue_example_def cache_example_def Prog_def
        run_routine_def Let_def)

subsection \<open>Exact p-values\<close>

text \<open>No step of the dynamic program makes a count negative, as long as no frequency is
  negative.\<close>

lemma for_loop_invariant:
  assumes "for_loop xs body s = Inr s'" and "P s"
    and "\<And>i t t'. i \<in> set xs \<Longrightarrow> P t \<Longrightarrow> body i t = Inr t' \<Longrightarrow> P t'"
  shows "P s'"
  using assms
proof (induction xs arbitrary: s)
  case Nil
  then show ?case by simp
next
  case (Cons i xs)
  from Cons.prems(1) obtain t where t: "body i s = Inr t" and rest: "for_loop xs body t = Inr s'"
    by (auto split: sum.splits)
  have Pt: "P t" using Cons.prems(3) [of i s t] Cons.prems(2) t by simp
  show ?case
  proof (rule Cons.IH [OF rest Pt])
    fix j u u'
    assume "j \<in> set xs" "P u" "body j u = Inr u'"
    then show "P u'" using Cons.prems(3) [of j u u'] by simp
  qed
qed

lemma nonneg_put: "nonneg_cells A \<Longrightarrow> 0 \<le> v \<Longrightarrow> nonneg_cells (put A r c v)"
  by (simp add: nonneg_cells_def put_def)

lemma foldl_nonneg:
  fixes f :: "nat \<Rightarrow> real"
  assumes "0 \<le> start" and "\<forall>de\<in>set xs. 0 \<le> f de"
  shows "0 \<le> foldl (\<lambda>s de. s + f de) start xs"
  using assms by (induction xs arbitrary: start) simp_all

lemma sum_back_nonneg:
  assumes "nonneg_cells A" and "\<forall>de<n. 0 \<le> aaFreq de" and "0 \<le> start"
  shows "0 \<le> sum_back n aaFreq aaMass A evidenceRow col start"
  unfolding sum_back_def
proof (rule foldl_nonneg [OF assms(3)])
  show "\<forall>de\<in>set [0..<n]. 0 \<le> cell A evidenceRow (col - aaMass de) * aaFreq de"
    using assms(1,2) by (simp add: nonneg_cells_def)
qed

lemma nterm_step_nonneg:
  assumes "nterm_step ev aaFreqN aaMass colStart r0 c0 mx colLast de A = Inr A'"
    and "nonneg_cells A" and "0 \<le> aaFreqN de"
  shows "nonneg_cells A'"
proof -
  have "0 \<le> cell A r c + cell A r0 c0 * aaFreqN de" for r c
    using assms(2,3) by (simp add: nonneg_cells_def)
  then show ?thesis
    using assms(1,2) by (auto simp: nterm_step_def Let_def nonneg_put split: if_splits)
qed

lemma row_step_nonneg:
  assumes "row_step n aaFreq aaMass keep evidence col row A = Inr A'"
    and "nonneg_cells A" and "\<forall>de<n. 0 \<le> aaFreq de"
  shows "nonneg_cells A'"
proof -
  have "0 \<le> (if keep then cell A row col else 0)"
    using assms(2) by (simp add: nonneg_cells_def)
  then have "0 \<le> sum_back n aaFreq aaMass A (row - evidence) col (if keep then cell A row col else 0)"
    by (rule sum_back_nonneg [OF assms(2,3)])
  then show ?thesis
    using assms(1,2) by (auto simp: row_step_def Let_def nonneg_put split: if_splits)
qed

lemma column_step_nonneg:
  assumes "column_step ev n aaFreq aaMass mx rowFirst rowLast ma A = Inr A'"
    and "nonneg_cells A" and "\<forall>de<n. 0 \<le> aaFreq de"
  shows "nonneg_cells A'"
proof -
  from assms(1)
  have l: "for_loop [rowFirst..rowLast] (row_step n aaFreq aaMass True (ev ma) (mx + ma)) A = Inr A'"
    unfolding column_step_def Let_def .
  show ?thesis
  proof (rule for_loop_invariant [where P = nonneg_cells, OF l assms(2)])
    fix i t t'
    assume t: "nonneg_cells t" and s: "row_step n aaFreq aaMass True (ev ma) (mx + ma) i t = Inr t'"
    from s t assms(3) show "nonneg_cells t'" by (rule row_step_nonneg)
  qed
qed

lemma score_counts_unfold:
  assumes sc: "score_counts h ev pm maxE minE maxS minS nAA fN fI fC aaMass = Inr counts"
  shows "\<exists>A1 A2 A3.
      for_loop [0..<nAA]
        (nterm_step ev fN aaMass (int (mass2bin h (mono_h h))) (maxE + 1 - minS)
           (aaMass (nAA - 1) + int (mass2bin h (mono_h h))) (aaMass (nAA - 1))
           (int (mass2bin h (bin2mass h pm - mono_oh h))))
        (put \<lparr> rows = maxE + 1 - minS + 1 + maxS + - minE, cols = aaMass (nAA - 1) + pm,
                cell = (\<lambda>_ _. 0) \<rparr>
             (maxE + 1 - minS) (aaMass (nAA - 1) + int (mass2bin h (mono_h h))) 1) = Inr A1
    \<and> for_loop [int (mass2bin h (mono_h h)) + int (mass2bin h (mono_h h))
                   ..int (mass2bin h (bin2mass h pm - mono_oh h)) - 1]
          (column_step ev nAA fI aaMass (aaMass (nAA - 1)) (maxE + 1) (maxE + 1 - minS + maxS))
          (put A1 (maxE + 1 - minS) (aaMass (nAA - 1) + int (mass2bin h (mono_h h))) 0) = Inr A2
    \<and> for_loop [maxE + 1..maxE + 1 - minS + maxS]
          (row_step nAA fC aaMass False 0
             (aaMass (nAA - 1) + int (mass2bin h (bin2mass h pm - mono_oh h)))) A2 = Inr A3
    \<and> counts = map (\<lambda>row. cell A3 row (aaMass (nAA - 1) + int (mass2bin h (bin2mass h pm - mono_oh h))))
                  [0..maxE + 1 - minS + 1 + maxS + - minE - 1]"
  using sc unfolding score_counts_def Let_def
  by (simp split: if_splits sum.splits)

lemma score_counts_nonneg:
  assumes sc: "score_counts h ev pm maxE minE maxS minS nAA fN fI fC aaMass = Inr counts"
    and f: "\<forall>de<nAA. 0 \<le> fN de \<and> 0 \<le> fI de \<and> 0 \<le> fC de"
  shows "\<forall>c\<in>set counts. 0 \<le> c"
proof -
  from score_counts_unfold [OF sc] obtain A0 A1 A2 A3 b1 b2 b3 xs2 xs3 col rs where
    l1: "for_loop [0..<nAA] b1 A0 = Inr A1"
    and b1: "b1 = nterm_step ev fN aaMass (int (mass2bin h (mono_h h))) (maxE + 1 - minS)
           (aaMass (nAA - 1) + int (mass2bin h (mono_h h))) (aaMass (nAA - 1))
           (int (mass2bin h (bin2mass h pm - mono_oh h)))"
    and A0: "A0 = put \<lparr> rows = maxE + 1 - minS + 1 + maxS + - minE, cols = aaMass (nAA - 1) + pm,
                cell = (\<lambda>_ _. 0) \<rparr>
             (maxE + 1 - minS) (aaMass (nAA - 1) + int (mass2bin h (mono_h h))) 1"
    and l2: "for_loop xs2 b2
               (put A1 (maxE + 1 - minS) (aaMass (nAA - 1) + int (mass2bin h (mono_h h))) 0) = Inr A2"
    and b2: "b2 = column_step ev nAA fI aaMass (aaMass (nAA - 1)) (maxE + 1) (maxE + 1 - minS + maxS)"
    and l3: "for_loop xs3 b3 A2 = Inr A3"
    and b3: "b3 = row_step nAA fC aaMass False 0 col"
    and res: "counts = map (\<lambda>row. cell A3 row col) rs"
    by blast
  have n0: "nonneg_cells A0"
    by (simp add: nonneg_cells_def put_def A0)
  have n1: "nonneg_cells A1"
  proof (rule for_loop_invariant [where P = nonneg_cells, OF l1 n0])
    fix i t t'
    assume i: "i \<in> set [0..<nAA]" and t: "nonneg_cells t" and s: "b1 i t = Inr t'"
    from i f have "0 \<le> fN i" by simp
    with s t show "nonneg_cells t'" unfolding b1 by (rule nterm_step_nonneg)
  qed
  then have n1': "nonneg_cells (put A1 (maxE + 1 - minS) (aaMass (nAA - 1) + int (mass2bin h (mono_h h))) 0)"
    by (simp add: nonneg_put)
  have fI: "\<forall>de<nAA. 0 \<le> fI de" and fC: "\<forall>de<nAA. 0 \<le> fC de" using f by simp_all
  have n2: "nonneg_cells A2"
  proof (rule for_loop_invariant [where P = nonneg_cells, OF l2 n1'])
    fix i t t'
    assume t: "nonneg_cells t" and s: "b2 i t = Inr t'"
    from s t fI show "nonneg_cells t'" unfolding b2 by (rule column_step_nonneg)
  qed
  have n3: "nonneg_cells A3"
  proof (rule for_loop_invariant [where P = nonneg_cells, OF l3 n2])
    fix i t t'
    assume t: "nonneg_cells t" and s: "b3 i t = Inr t'"
    from s t fC show "nonneg_cells t'" unfolding b3 by (rule row_step_nonneg)
  qed
  then show ?thesis
    by (simp add: res nonneg_cells_def)
qed

text \<open>The sums from the top, and the p-values in closed form.\<close>

lemma foldl_plus: "foldl (+) a xs = a + sum_list (xs :: real list)"
  by (induction xs arbitrary: a) simp_all

lemma cumulate_length: "length (cumulate xs) = length xs"
  by (induction xs rule: cumulate.induct) (simp_all add: Let_def)

lemma cumulate_nth: "i < length xs \<Longrightarrow> cumulate xs ! i = sum_list (drop i xs)"
proof (induction xs arbitrary: i rule: cumulate.induct)
  case 1
  then show ?case by simp
next
  case (2 x)
  then show ?case by simp
next
  case (3 x y ys)
  have hd_rest: "hd (cumulate (y # ys)) = sum_list (y # ys)"
  proof -
    have "cumulate (y # ys) \<noteq> []"
      using cumulate_length [of "y # ys"] by auto
    then have "hd (cumulate (y # ys)) = cumulate (y # ys) ! 0" by (simp add: hd_conv_nth)
    also have "\<dots> = sum_list (drop 0 (y # ys))" by (rule "3.IH") simp
    finally show ?thesis by simp
  qed
  show ?case
  proof (cases i)
    case 0
    then show ?thesis by (simp add: Let_def hd_rest)
  next
    case (Suc j)
    with "3.prems" have "j < length (y # ys)" by simp
    then have "cumulate (y # ys) ! j = sum_list (drop j (y # ys))" by (rule "3.IH")
    with Suc show ?thesis by (simp add: Let_def)
  qed
qed

lemma p_values_length: "length (p_values counts) = length counts"
  by (simp add: p_values_def Let_def cumulate_length)

lemma p_values_nth:
  assumes "i < length counts"
  shows "p_values counts ! i =
           c_exp (d_minus (c_log (sum_list (drop i counts) - counts ! i / 2)) (c_log (sum_list counts)))"
  using assms by (simp add: p_values_def Let_def cumulate_length cumulate_nth foldl_plus)

lemma sum_list_nonneg_real: "\<forall>c\<in>set xs. (0::real) \<le> c \<Longrightarrow> 0 \<le> sum_list xs"
  by (induction xs) simp_all

lemma sum_list_all_zero: "\<forall>c\<in>set xs. c = (0::real) \<Longrightarrow> sum_list xs = 0"
  by (induction xs) simp_all

lemma tail_split:
  assumes "i < length counts"
  shows "sum_list (drop i counts) = counts ! i + sum_list (drop (Suc i) (counts :: real list))"
  using assms by (simp add: Cons_nth_drop_Suc [symmetric])

lemma p_values_finite:
  assumes nn: "\<forall>c\<in>set counts. 0 \<le> c" and T: "0 < sum_list counts" and i: "i < length counts"
  shows "p_values counts ! i
           = Finite ((counts ! i / 2 + sum_list (drop (Suc i) counts)) / sum_list counts)"
proof -
  define v where "v = counts ! i / 2 + sum_list (drop (Suc i) counts)"
  have "\<forall>c\<in>set (drop (Suc i) counts). 0 \<le> c" using nn by (meson in_set_dropD)
  then have "0 \<le> sum_list (drop (Suc i) counts)" by (rule sum_list_nonneg_real)
  moreover have "0 \<le> counts ! i" using nn i by simp
  ultimately have v0: "0 \<le> v" by (simp add: v_def)
  have arg: "sum_list (drop i counts) - counts ! i / 2 = v"
    by (simp add: tail_split [OF i] v_def)
  have "p_values counts ! i = c_exp (d_minus (c_log v) (c_log (sum_list counts)))"
    by (simp only: p_values_nth [OF i] arg)
  also have "\<dots> = Finite (v / sum_list counts)"
  proof (cases "v = 0")
    case True
    then show ?thesis using T by (simp add: c_log_def)
  next
    case False
    with v0 have "0 < v" by simp
    then show ?thesis using T by (simp add: c_log_def exp_diff)
  qed
  finally show ?thesis by (simp only: v_def)
qed

lemma p_values_monotone:
  assumes nn: "\<forall>c\<in>set counts. 0 \<le> c" and T: "0 < sum_list counts"
    and i: "Suc row < length counts"
  shows "d_ge (p_values counts ! row) (p_values counts ! Suc row)"
proof -
  have r: "row < length counts" using i by simp
  have a: "0 \<le> counts ! row" "0 \<le> counts ! Suc row" using nn i r by simp_all
  have "sum_list (drop (Suc row) counts) = counts ! Suc row + sum_list (drop (Suc (Suc row)) counts)"
    by (rule tail_split [OF i])
  then have "counts ! Suc row / 2 + sum_list (drop (Suc (Suc row)) counts)
               \<le> counts ! row / 2 + sum_list (drop (Suc row) counts)"
    using a by simp
  then have "(counts ! Suc row / 2 + sum_list (drop (Suc (Suc row)) counts)) / sum_list counts
               \<le> (counts ! row / 2 + sum_list (drop (Suc row) counts)) / sum_list counts"
    using T by (simp add: divide_right_mono)
  then show ?thesis
    by (simp add: p_values_finite [OF nn T r] p_values_finite [OF nn T i])
qed

lemma p_values_NaN:
  assumes nn: "\<forall>c\<in>set counts. 0 \<le> c" and T: "\<not> 0 < sum_list counts"
    and i: "row < length counts"
  shows "p_values counts ! row = NaN"
proof -
  have T0: "sum_list counts = 0"
    using sum_list_nonneg_real [OF nn] T by simp
  have all0: "\<forall>c\<in>set counts. c = 0"
    using nn T0 by (simp add: sum_list_nonneg_eq_0_iff)
  have "counts ! row = 0" using all0 i by simp
  moreover have "sum_list (drop row counts) = 0"
  proof -
    have "\<forall>c\<in>set (drop row counts). c = 0" using all0 by (meson in_set_dropD)
    then show ?thesis by (rule sum_list_all_zero)
  qed
  ultimately show ?thesis
    by (simp add: p_values_nth [OF i] T0 c_log_def)
qed

text \<open>
  Claim C1, as amended. For every evidence vector, peptide integer mass and amino-acid tables
  without a negative frequency on which \<^verbatim>\<open>calcScoreCount\<close> returns (all its accesses staying
  inside \<^verbatim>\<open>dynProgArray\<close>), the table has one entry per row of the array, and it is
  non-increasing as a function of the score, \<open>p(X) \<ge> p(X + 1)\<close> for every row \<open>X\<close> with a
  successor, provided that the total count is positive, that is, that some sequence of
  residues reaches the peptide mass. When the total count is zero, every entry of the table
  is NaN.
\<close>

theorem calcScoreCount_monotone:
  assumes f: "\<forall>de<nAA. 0 \<le> aaFreqN de \<and> 0 \<le> aaFreqI de \<and> 0 \<le> aaFreqC de"
    and r: "calcScoreCount h numel evidenceObs pepMassInt maxEvidence minEvidence maxScore minScore
              nAA aaFreqN aaFreqI aaFreqC aaMass = Inr (offset, pValueScoreObs)"
  shows "\<exists>counts.
           score_counts h evidenceObs pepMassInt maxEvidence minEvidence maxScore minScore
             nAA aaFreqN aaFreqI aaFreqC aaMass = Inr counts
         \<and> length pValueScoreObs = length counts
         \<and> (0 < sum_list counts \<longrightarrow>
              (\<forall>row. Suc row < length pValueScoreObs \<longrightarrow>
                 d_ge (pValueScoreObs ! row) (pValueScoreObs ! Suc row)))
         \<and> (\<not> 0 < sum_list counts \<longrightarrow>
              (\<forall>row<length pValueScoreObs. pValueScoreObs ! row = NaN))"
proof -
  from r obtain counts where
    sc: "score_counts h evidenceObs pepMassInt maxEvidence minEvidence maxScore minScore
             nAA aaFreqN aaFreqI aaFreqC aaMass = Inr counts"
    and pv: "pValueScoreObs = p_values counts"
    by (auto simp: calcScoreCount_def Let_def split: sum.splits)
  have nn: "\<forall>c\<in>set counts. 0 \<le> c"
    by (rule score_counts_nonneg [OF sc f])
  have len: "length pValueScoreObs = length counts"
    by (simp add: pv p_values_length)
  have mono: "\<forall>row. Suc row < length pValueScoreObs \<longrightarrow>
                 d_ge (pValueScoreObs ! row) (pValueScoreObs ! Suc row)" if "0 < sum_list counts"
    using that by (simp add: pv p_values_length p_values_monotone [OF nn])
  have nan: "\<forall>row<length pValueScoreObs. pValueScoreObs ! row = NaN" if "\<not> 0 < sum_list counts"
    using that by (simp add: pv p_values_length p_values_NaN [OF nn])
  from sc len mono nan show ?thesis by blast
qed

lemma upt_0_2: "[0..<2] = [0, 1]"
  by code_simp

lemma example_columns:
  "int (mass2bin example_headers (mono_h example_headers)) = 1"
  "int (mass2bin example_headers (bin2mass example_headers 31 - mono_oh example_headers)) = 13"
  "int (mass2bin example_headers (bin2mass example_headers 27 - mono_oh example_headers)) = 9"
  by (simp_all add: example_headers_def)

lemma reachable_counts:
  "score_counts example_headers one_evidence 31 1 0 1 0 2 half half half two_residues
     = Inr [0, 0, 1/4, 1/4]"
  unfolding score_counts_def Let_def example_columns
  by (simp add: in_range_def put_def two_residues_def one_evidence_def half_def
        nterm_step_def column_step_def row_step_def sum_back_def upto.simps upt_0_2)

lemma unreachable_counts:
  "score_counts example_headers one_evidence 27 1 0 1 0 2 half half half two_residues
     = Inr [0, 0, 0, 0]"
  unfolding score_counts_def Let_def example_columns
  by (simp add: in_range_def put_def two_residues_def one_evidence_def half_def
        nterm_step_def column_step_def row_step_def sum_back_def upto.simps upt_0_2)

lemma p_values_reachable: "p_values [0, 0, 1/4, 1/4] = [Finite 1, Finite 1, Finite (3/4), Finite (1/4)]"
  by (simp add: p_values_def Let_def c_log_def exp_diff)

lemma p_values_unreachable: "p_values [0, 0, 0, 0] = [NaN, NaN, NaN, NaN]"
  by (simp add: p_values_def Let_def c_log_def)

theorem calcScoreCount_monotone_witness:
  "calcScoreCount example_headers 40 one_evidence 31 1 0 1 0 2 half half half two_residues
     = Inr (2, [Finite 1, Finite 1, Finite (3/4), Finite (1/4)])
   \<and> d_ge (Finite (3/4)) (Finite (1/4))"
proof -
  have f: "\<forall>de<2. 0 \<le> half de \<and> 0 \<le> half de \<and> 0 \<le> half de"
    by (simp add: half_def)
  have run: "calcScoreCount example_headers 40 one_evidence 31 1 0 1 0 2 half half half two_residues
     = Inr (2, [Finite 1, Finite 1, Finite (3/4), Finite (1/4)])"
    by (simp add: calcScoreCount_def reachable_counts p_values_reachable)
  from calcScoreCount_monotone [OF f run] obtain counts where
    c: "score_counts example_headers one_evidence 31 1 0 1 0 2 half half half two_residues = Inr counts"
    and m: "0 < sum_list counts \<longrightarrow>
              (\<forall>row. Suc row < length [Finite 1, Finite 1, Finite (3/4), Finite (1/4)] \<longrightarrow>
                 d_ge ([Finite 1, Finite 1, Finite (3/4), Finite (1/4)] ! row)
                      ([Finite 1, Finite 1, Finite (3/4), Finite (1/4)] ! Suc row))"
    by blast
  from c have "counts = [0, 0, 1/4, 1/4]" by (simp add: reachable_counts)
  then have "0 < sum_list counts" by simp
  with m have "Suc 2 < length [Finite 1, Finite 1, Finite (3/4), Finite (1/4)] \<longrightarrow>
                 d_ge ([Finite 1, Finite 1, Finite (3/4), Finite (1/4)] ! 2)
                      ([Finite 1, Finite 1, Finite (3/4), Finite (1/4)] ! Suc 2)"
    by blast
  then have "d_ge (Finite (3/4)) (Finite (1/4))" by simp
  with run show ?thesis by simp
qed

text \<open>
  Claim C1 as stated fails for a peptide mass that no sequence of residues reaches: with the
  residue masses 5 and 7 and the peptide mass 27 every count is zero, the normalisation
  computes \<^verbatim>\<open>exp(log(0) - log(0))\<close>, every entry of the table is NaN, and \<open>p(0) \<ge> p(1)\<close> is
  false.
\<close>

theorem calcScoreCount_NaN_counterexample:
  "calcScoreCount example_headers 40 one_evidence 27 1 0 1 0 2 half half half two_residues
     = Inr (2, [NaN, NaN, NaN, NaN])
   \<and> (case calcScoreCount example_headers 40 one_evidence 27 1 0 1 0 2 half half half two_residues of
        Inl e \<Rightarrow> None
      | Inr r \<Rightarrow> Some (d_ge (snd r ! 0) (snd r ! 1))) = Some False"
  by (simp add: calcScoreCount_def unreachable_counts p_values_unreachable)

end
